theory Spec2Isabelle
  imports Main
begin

section \<open>The update manager's policy dispatcher (update_manager-inl.h)\<close>

text \<open>
  The four member templates of \<open>UpdateManager\<close> are embedded as functions on an explicit
  world: the heap of EvaluationContext objects, the State object, the closures held by the
  event loop, and the chronological trace of every effectful call the dispatcher makes on
  a collaborator and of every conversion of a closure's arguments. The collaborators
  themselves (EvaluationContext, the two policy objects, the event loop, logging) are
  outside the file; their behaviour is a parameter.
\<close>

subsection \<open>Data\<close>

datatype EvalStatus = kFailed | kSucceeded | kAskMeAgainLater

datatype severity = INFO | WARNING | ERROR

text \<open>The object a policy method pointer is applied to: \<open>policy_\<close> or \<open>default_policy_\<close>.\<close>

datatype policy_object = Primary | Default

text \<open>An \<open>EvaluationContext*\<close> (or \<open>scoped_refptr\<close>) is an address in the heap of contexts.\<close>

type_synonym ec_ptr = nat

text \<open>
  The two closures the file builds with \<open>base::Bind(&UpdateManager::OnPolicyReadyToEvaluate<...>,
  base::Unretained(this), ec, callback, policy_method, args...)\<close>. A closure stores the
  values it is given, at the types they are given at (\<open>base::Bind\<close>, outside the file):
  \<^item> \<open>reeval_callback\<close>, lines 84-87, bound inside \<open>OnPolicyReadyToEvaluate<R, Args...>\<close>:
    the arguments are already at the operation's declared types;
  \<^item> \<open>eval_callback\<close>, lines 134-136, bound inside \<open>AsyncPolicyRequest\<close>: the arguments
    are the caller's, at the caller's types \<open>ActualArgs\<close>.
  A delivery callback is opaque to the dispatcher, which only runs it; it is represented by
  an identifier.
\<close>

datatype ('m, 'a, 'b, 'k) closure =
    Bind_OnPolicyReadyToEvaluate (bound_ec: ec_ptr) (bound_callback: 'k)
      (bound_policy_method: 'm) (bound_args: 'a)
  | Bind_eval_callback (bound_ec: ec_ptr) (bound_callback: 'k)
      (bound_policy_method: 'm) (actual_args: 'b)

text \<open>
  The effectful calls, in the order they happen. \<open>Ev_Invoke\<close> records what a policy
  method receives: the method pointer, the context pointer, the content of the error slot
  at entry and the arguments. \<open>Ev_convert\<close> records the conversion that running an
  \<open>eval_callback\<close> performs on its stored arguments: the closure's context, the caller's
  values and the converted values. \<open>Ev_released\<close> is the one event of the environment: the
  event loop drops a closure it holds without running it.
\<close>

datatype ('m, 'r, 'a, 'b, 'k) event =
    Ev_new_EvaluationContext ec_ptr nat int "int option"
  | Ev_convert ec_ptr 'b 'a
  | Ev_ResetExpiration ec_ptr
  | Ev_ResetEvaluation ec_ptr
  | Ev_LOG severity string
  | Ev_Invoke policy_object 'm ec_ptr string 'a
  | Ev_callback_Run 'k EvalStatus 'r
  | Ev_RunOnValueChangeOrTimeout ec_ptr "('m, 'a, 'b, 'k) closure" bool
  | Ev_RunFromMainLoop "('m, 'a, 'b, 'k) closure"
  | Ev_released "('m, 'a, 'b, 'k) closure"

record ('e, 's, 'm, 'r, 'a, 'b, 'k) world =
  ecs :: "ec_ptr \<Rightarrow> 'e"
  next_ec :: ec_ptr
  state :: 's
  scheduled :: "('m, 'a, 'b, 'k) closure list"
  trace :: "('m, 'r, 'a, 'b, 'k) event list"

text \<open>
  What the file takes from its collaborators and from the language: the operations of
  class EvaluationContext on one context object, the default constructor of the result
  type (\<open>R result;\<close>), and whether \<open>DCHECK\<close> is compiled in.
\<close>

record ('e, 'r) collaborators =
  EvaluationContext_ctor :: "nat \<Rightarrow> int \<Rightarrow> int option \<Rightarrow> 'e"
  is_expired :: "'e \<Rightarrow> bool"
  DumpContext :: "'e \<Rightarrow> string"
  ResetExpiration :: "'e \<Rightarrow> 'e"
  ResetEvaluation :: "'e \<Rightarrow> 'e"
  RunOnValueChangeOrTimeout :: "'e \<Rightarrow> bool \<times> 'e"
  R_ctor :: 'r
  DCHECK_IS_ON :: bool

text \<open>
  A policy object (the members \<open>policy_\<close> and \<open>default_policy_\<close>; member names are
  written without their trailing underscore): each decision operation
  \<open>(EvaluationContext*, State*, std::string*, R*, Args...) const\<close> reads and may write
  the context, the State, the error slot and the result slot, and returns a status.
\<close>

record ('e, 's, 'm, 'r, 'a) Policy =
  operation :: "'m \<Rightarrow> 'e \<Rightarrow> 's \<Rightarrow> string \<Rightarrow> 'r \<Rightarrow> 'a \<Rightarrow> EvalStatus \<times> 'e \<times> 's \<times> string \<times> 'r"
  PolicyRequestName :: "'m \<Rightarrow> string"

record ('e, 's, 'm, 'r, 'a) UpdateManager =
  policy :: "('e, 's, 'm, 'r, 'a) Policy"
  default_policy :: "('e, 's, 'm, 'r, 'a) Policy"
  clock :: nat
  evaluation_timeout :: int
  expiration_timeout :: int

datatype error = DCHECK_failed

subsection \<open>Calls on the collaborators\<close>

definition emit :: "('m, 'r, 'a, 'b, 'k) event \<Rightarrow> ('e, 's, 'm, 'r, 'a, 'b, 'k) world
    \<Rightarrow> ('e, 's, 'm, 'r, 'a, 'b, 'k) world" where
  "emit ev w = w\<lparr>trace := trace w @ [ev]\<rparr>"

definition LOG :: "severity \<Rightarrow> string \<Rightarrow> ('e, 's, 'm, 'r, 'a, 'b, 'k) world
    \<Rightarrow> ('e, 's, 'm, 'r, 'a, 'b, 'k) world" where
  "LOG sev msg w = emit (Ev_LOG sev msg) w"

definition new_EvaluationContext :: "('e, 'r) collaborators \<Rightarrow> nat \<Rightarrow> int \<Rightarrow> int option
    \<Rightarrow> ('e, 's, 'm, 'r, 'a, 'b, 'k) world \<Rightarrow> ec_ptr \<times> ('e, 's, 'm, 'r, 'a, 'b, 'k) world" where
  "new_EvaluationContext co clk eval_timeout exp_timeout w =
     (next_ec w,
      emit (Ev_new_EvaluationContext (next_ec w) clk eval_timeout exp_timeout)
        (w\<lparr>ecs := (ecs w)(next_ec w := EvaluationContext_ctor co clk eval_timeout exp_timeout),
           next_ec := Suc (next_ec w)\<rparr>))"

definition ec_ResetExpiration :: "('e, 'r) collaborators \<Rightarrow> ec_ptr
    \<Rightarrow> ('e, 's, 'm, 'r, 'a, 'b, 'k) world \<Rightarrow> ('e, 's, 'm, 'r, 'a, 'b, 'k) world" where
  "ec_ResetExpiration co ec w =
     emit (Ev_ResetExpiration ec) (w\<lparr>ecs := (ecs w)(ec := ResetExpiration co (ecs w ec))\<rparr>)"

definition ec_ResetEvaluation :: "('e, 'r) collaborators \<Rightarrow> ec_ptr
    \<Rightarrow> ('e, 's, 'm, 'r, 'a, 'b, 'k) world \<Rightarrow> ('e, 's, 'm, 'r, 'a, 'b, 'k) world" where
  "ec_ResetEvaluation co ec w =
     emit (Ev_ResetEvaluation ec) (w\<lparr>ecs := (ecs w)(ec := ResetEvaluation co (ecs w ec))\<rparr>)"

text \<open>
  Modelled from the spec: \<open>EvaluationContext::RunOnValueChangeOrTimeout\<close> and the event
  loop's \<open>RunFromMainLoop\<close> (evaluation_context.cc and event_loop.cc are not part of the
  file). "true = scheduled; false = nothing to wait on": when the context accepts the
  closure it is held for a later run, otherwise it is not kept. \<open>RunFromMainLoop\<close> "posts a
  zero-argument action to run later on the same cooperative thread". Whether a context
  has something to wait on is the collaborator's decision.
\<close>

definition ec_RunOnValueChangeOrTimeout :: "('e, 'r) collaborators \<Rightarrow> ec_ptr
    \<Rightarrow> ('m, 'a, 'b, 'k) closure \<Rightarrow> ('e, 's, 'm, 'r, 'a, 'b, 'k) world
    \<Rightarrow> bool \<times> ('e, 's, 'm, 'r, 'a, 'b, 'k) world" where
  "ec_RunOnValueChangeOrTimeout co ec c w =
     (case RunOnValueChangeOrTimeout co (ecs w ec) of
        (ok, e') \<Rightarrow>
          (ok, emit (Ev_RunOnValueChangeOrTimeout ec c ok)
                 (w\<lparr>ecs := (ecs w)(ec := e'),
                    scheduled := (if ok then scheduled w @ [c] else scheduled w)\<rparr>)))"

definition RunFromMainLoop :: "('m, 'a, 'b, 'k) closure \<Rightarrow> ('e, 's, 'm, 'r, 'a, 'b, 'k) world
    \<Rightarrow> ('e, 's, 'm, 'r, 'a, 'b, 'k) world" where
  "RunFromMainLoop c w = emit (Ev_RunFromMainLoop c) (w\<lparr>scheduled := scheduled w @ [c]\<rparr>)"

definition callback_Run :: "'k \<Rightarrow> EvalStatus \<Rightarrow> 'r \<Rightarrow> ('e, 's, 'm, 'r, 'a, 'b, 'k) world
    \<Rightarrow> ('e, 's, 'm, 'r, 'a, 'b, 'k) world" where
  "callback_Run callback status result w = emit (Ev_callback_Run callback status result) w"

definition policy_of :: "('e, 's, 'm, 'r, 'a) UpdateManager \<Rightarrow> policy_object
    \<Rightarrow> ('e, 's, 'm, 'r, 'a) Policy" where
  "policy_of um p = (case p of Primary \<Rightarrow> policy um | Default \<Rightarrow> default_policy um)"

text \<open>
  \<open>(object.*policy_method)(ec, state_.get(), &error, result, args...)\<close>: the method runs
  on the context at \<open>ec\<close> and on the State, and leaves both as it wrote them.
\<close>

definition invoke :: "('e, 's, 'm, 'r, 'a) UpdateManager \<Rightarrow> policy_object \<Rightarrow> 'm \<Rightarrow> ec_ptr
    \<Rightarrow> string \<Rightarrow> 'r \<Rightarrow> 'a \<Rightarrow> ('e, 's, 'm, 'r, 'a, 'b, 'k) world
    \<Rightarrow> EvalStatus \<times> string \<times> 'r \<times> ('e, 's, 'm, 'r, 'a, 'b, 'k) world" where
  "invoke um p policy_method ec err result args w =
     (case operation (policy_of um p) policy_method (ecs w ec) (state w) err result args of
        (status, e', s', err', result') \<Rightarrow>
          (status, err', result',
           (emit (Ev_Invoke p policy_method ec err args) w)
             \<lparr>ecs := (ecs w)(ec := e'), state := s'\<rparr>))"

subsection \<open>UpdateManager::EvaluatePolicy\<close>

text \<open>Lines 24-38: the expiration check, the reset of the context, the START line.\<close>

definition EvaluatePolicy_begin :: "('e, 'r) collaborators \<Rightarrow> ('e, 's, 'm, 'r, 'a) UpdateManager
    \<Rightarrow> ec_ptr \<Rightarrow> 'm \<Rightarrow> ('e, 's, 'm, 'r, 'a, 'b, 'k) world \<Rightarrow> ('e, 's, 'm, 'r, 'a, 'b, 'k) world" where
  "EvaluatePolicy_begin co um ec policy_method w =
     (let w1 = (if is_expired co (ecs w ec)
                then ec_ResetExpiration co ec
                       (LOG WARNING (''Request timed out, evaluation context: ''
                                      @ DumpContext co (ecs w ec)) w)
                else w);
          w2 = ec_ResetEvaluation co ec w1;
          policy_name = PolicyRequestName (policy um) policy_method
      in LOG INFO (policy_name @ '': START'') w2)"

text \<open>Lines 45-58: the fallback to the default policy after the primary failed.\<close>

definition EvaluatePolicy_fallback :: "('e, 'r) collaborators \<Rightarrow> ('e, 's, 'm, 'r, 'a) UpdateManager
    \<Rightarrow> ec_ptr \<Rightarrow> 'm \<Rightarrow> string \<Rightarrow> 'r \<Rightarrow> 'a \<Rightarrow> ('e, 's, 'm, 'r, 'a, 'b, 'k) world
    \<Rightarrow> EvalStatus \<times> 'r \<times> ('e, 's, 'm, 'r, 'a, 'b, 'k) world" where
  "EvaluatePolicy_fallback co um ec policy_method err result args w =
     (let w1 = LOG WARNING (''Evaluating policy failed: '' @ err @ [CHR 0x0A]
                             @ ''Evaluation context: '' @ DumpContext co (ecs w ec)) w;
          cleared = []
      in case invoke um Default policy_method ec cleared result args w1 of
           (status, err', result', w2) \<Rightarrow>
             if status = kFailed
             then (status, result', LOG WARNING (''Evaluating default policy failed: '' @ err') w2)
             else if status = kAskMeAgainLater
             then (kFailed, result',
                   LOG ERROR ''Default policy would block; this is a bug, forcing failure.'' w2)
             else (status, result', w2))"

definition EvaluatePolicy :: "('e, 'r) collaborators \<Rightarrow> ('e, 's, 'm, 'r, 'a) UpdateManager
    \<Rightarrow> ec_ptr \<Rightarrow> 'm \<Rightarrow> 'r \<Rightarrow> 'a \<Rightarrow> ('e, 's, 'm, 'r, 'a, 'b, 'k) world
    \<Rightarrow> EvalStatus \<times> 'r \<times> ('e, 's, 'm, 'r, 'a, 'b, 'k) world" where
  "EvaluatePolicy co um ec policy_method result args w =
     (let w1 = EvaluatePolicy_begin co um ec policy_method w;
          policy_name = PolicyRequestName (policy um) policy_method
      in case invoke um Primary policy_method ec [] result args w1 of
           (status, err, result1, w2) \<Rightarrow>
             (case (if status = kFailed
                    then EvaluatePolicy_fallback co um ec policy_method err result1 args w2
                    else (status, result1, w2)) of
                (status', result2, w3) \<Rightarrow>
                  (status', result2, LOG INFO (policy_name @ '': END'') w3)))"

subsection \<open>UpdateManager::OnPolicyReadyToEvaluate\<close>

definition OnPolicyReadyToEvaluate :: "('e, 'r) collaborators \<Rightarrow> ('e, 's, 'm, 'r, 'a) UpdateManager
    \<Rightarrow> ec_ptr \<Rightarrow> 'k \<Rightarrow> 'm \<Rightarrow> 'a \<Rightarrow> ('e, 's, 'm, 'r, 'a, 'b, 'k) world
    \<Rightarrow> ('e, 's, 'm, 'r, 'a, 'b, 'k) world" where
  "OnPolicyReadyToEvaluate co um ec callback policy_method args w =
     (case EvaluatePolicy co um ec policy_method (R_ctor co) args w of
        (status, result, w1) \<Rightarrow>
          if status \<noteq> kAskMeAgainLater
          then callback_Run callback status result w1
          else (let reeval_callback =
                      Bind_OnPolicyReadyToEvaluate ec callback policy_method args
                in case ec_RunOnValueChangeOrTimeout co ec reeval_callback w1 of
                     (ok, w2) \<Rightarrow>
                       if ok then w2
                       else callback_Run callback status result
                              (LOG ERROR (''Failed to schedule a reevaluation of policy ''
                                           @ PolicyRequestName (policy um) policy_method
                                           @ ''; this is a bug.'') w2)))"

subsection \<open>UpdateManager::PolicyRequest and UpdateManager::AsyncPolicyRequest\<close>

text \<open>
  \<open>convert\<close> is the implicit conversion of the caller's \<open>ActualArgs\<close> to the operation's
  \<open>ExpectedArgs\<close>. A failed \<open>DCHECK\<close> ends the process: the request returns no status.
\<close>

definition PolicyRequest :: "('e, 'r) collaborators \<Rightarrow> ('e, 's, 'm, 'r, 'a) UpdateManager
    \<Rightarrow> ('b \<Rightarrow> 'a) \<Rightarrow> 'm \<Rightarrow> 'r \<Rightarrow> 'b \<Rightarrow> ('e, 's, 'm, 'r, 'a, 'b, 'k) world
    \<Rightarrow> (error \<times> ('e, 's, 'm, 'r, 'a, 'b, 'k) world)
        + (EvalStatus \<times> 'r \<times> ('e, 's, 'm, 'r, 'a, 'b, 'k) world)" where
  "PolicyRequest co um convert policy_method result args w =
     (case new_EvaluationContext co (clock um) (evaluation_timeout um) None w of
        (ec, w1) \<Rightarrow>
          (case EvaluatePolicy co um ec policy_method result (convert args) w1 of
             (ret, result', w2) \<Rightarrow>
               if DCHECK_IS_ON co \<and> \<not> (kAskMeAgainLater \<noteq> ret)
               then Inl (DCHECK_failed, w2)
               else Inr (ret, result',
                         if kAskMeAgainLater = ret
                         then LOG WARNING ''Sync request used with an async policy; this is a bug'' w2
                         else w2)))"

text \<open>
  \<open>AsyncPolicyRequest\<close> converts nothing: \<open>base::Bind\<close> stores the caller's values as
  they are, and the closure it builds is only posted.
\<close>

definition AsyncPolicyRequest :: "('e, 'r) collaborators \<Rightarrow> ('e, 's, 'm, 'r, 'a) UpdateManager
    \<Rightarrow> 'k \<Rightarrow> 'm \<Rightarrow> 'b \<Rightarrow> ('e, 's, 'm, 'r, 'a, 'b, 'k) world
    \<Rightarrow> ('e, 's, 'm, 'r, 'a, 'b, 'k) world" where
  "AsyncPolicyRequest co um callback policy_method args w =
     (case new_EvaluationContext co (clock um) (evaluation_timeout um)
             (Some (expiration_timeout um)) w of
        (ec, w1) \<Rightarrow>
          (let eval_callback = Bind_eval_callback ec callback policy_method args
           in RunFromMainLoop eval_callback w1))"

subsection \<open>Running a closure\<close>

text \<open>
  \<open>base::Closure::Run\<close> (outside the file) calls the bound function on the stored values.
  Both closures are bound to \<open>OnPolicyReadyToEvaluate\<close> instantiated at the declared types
  (the comment on lines 131-133), so running \<open>eval_callback\<close> converts the stored
  \<open>ActualArgs\<close> values where they are passed to the function's \<open>ExpectedArgs\<close>
  parameters; running \<open>reeval_callback\<close> passes values that already have the parameters'
  types.
\<close>

definition Closure_Run :: "('e, 'r) collaborators \<Rightarrow> ('e, 's, 'm, 'r, 'a) UpdateManager
    \<Rightarrow> ('b \<Rightarrow> 'a) \<Rightarrow> ('m, 'a, 'b, 'k) closure \<Rightarrow> ('e, 's, 'm, 'r, 'a, 'b, 'k) world
    \<Rightarrow> ('e, 's, 'm, 'r, 'a, 'b, 'k) world" where
  "Closure_Run co um convert c w =
     (case c of
        Bind_OnPolicyReadyToEvaluate ec callback policy_method args \<Rightarrow>
          OnPolicyReadyToEvaluate co um ec callback policy_method args w
      | Bind_eval_callback ec callback policy_method args \<Rightarrow>
          OnPolicyReadyToEvaluate co um ec callback policy_method (convert args)
            (emit (Ev_convert ec args (convert args)) w))"

subsection \<open>The event loop\<close>

text \<open>
  Modelled from the spec: the event loop and the life of a request (the loop is not part
  of the file). The loop holds the closures posted to it or registered with a context; it
  later runs one of them (\<open>Fire\<close>) or drops it when its holders release it without firing
  (\<open>Release\<close>, "the request is abandoned ... the delivery callback is simply never
  invoked"). Between two runs time passes and variables change: the contexts and the State
  may be anything (\<open>Environment\<close>). Callers issue asynchronous and synchronous requests
  at any moment. A failed \<open>DCHECK\<close> ends the process, and the rest of the script with it.
\<close>

datatype ('e, 's, 'm, 'r, 'a, 'b, 'k) loop_action =
    Fire "('m, 'a, 'b, 'k) closure"
  | Release "('m, 'a, 'b, 'k) closure"
  | Environment "ec_ptr \<Rightarrow> 'e" 's
  | Async 'k 'm 'b
  | Sync 'm 'r 'b

definition loop_step :: "('e, 'r) collaborators \<Rightarrow> ('e, 's, 'm, 'r, 'a) UpdateManager
    \<Rightarrow> ('b \<Rightarrow> 'a) \<Rightarrow> ('e, 's, 'm, 'r, 'a, 'b, 'k) loop_action
    \<Rightarrow> ('e, 's, 'm, 'r, 'a, 'b, 'k) world
    \<Rightarrow> (error \<times> ('e, 's, 'm, 'r, 'a, 'b, 'k) world) + ('e, 's, 'm, 'r, 'a, 'b, 'k) world" where
  "loop_step co um convert act w =
     (case act of
        Fire c \<Rightarrow>
          if c \<in> set (scheduled w)
          then Inr (Closure_Run co um convert c (w\<lparr>scheduled := remove1 c (scheduled w)\<rparr>))
          else Inr w
      | Release c \<Rightarrow>
          if c \<in> set (scheduled w)
          then Inr (emit (Ev_released c) (w\<lparr>scheduled := remove1 c (scheduled w)\<rparr>))
          else Inr w
      | Environment es s \<Rightarrow> Inr (w\<lparr>ecs := es, state := s\<rparr>)
      | Async callback policy_method args \<Rightarrow>
          Inr (AsyncPolicyRequest co um callback policy_method args w)
      | Sync policy_method result args \<Rightarrow>
          (case PolicyRequest co um convert policy_method result args w of
             Inl (e, w') \<Rightarrow> Inl (e, w')
           | Inr (status, result', w') \<Rightarrow> Inr w'))"

fun run_loop :: "('e, 'r) collaborators \<Rightarrow> ('e, 's, 'm, 'r, 'a) UpdateManager
    \<Rightarrow> ('b \<Rightarrow> 'a) \<Rightarrow> ('e, 's, 'm, 'r, 'a, 'b, 'k) loop_action list
    \<Rightarrow> ('e, 's, 'm, 'r, 'a, 'b, 'k) world
    \<Rightarrow> (error \<times> ('e, 's, 'm, 'r, 'a, 'b, 'k) world) + ('e, 's, 'm, 'r, 'a, 'b, 'k) world" where
  "run_loop co um convert [] w = Inr w"
| "run_loop co um convert (act # acts) w =
     (case loop_step co um convert act w of
        Inl x \<Rightarrow> Inl x
      | Inr w' \<Rightarrow> run_loop co um convert acts w')"

text \<open>The world a run ended in, whether the process was stopped by an assertion or not.\<close>

definition last_world :: "(error \<times> ('e, 's, 'm, 'r, 'a, 'b, 'k) world) + ('e, 's, 'm, 'r, 'a, 'b, 'k) world
    \<Rightarrow> ('e, 's, 'm, 'r, 'a, 'b, 'k) world" where
  "last_world x = (case x of Inl (e, w) \<Rightarrow> w | Inr w \<Rightarrow> w)"

text \<open>The world a synchronous request leaves, whether it returned or its assertion failed.\<close>

definition PolicyRequest_world ::
    "(error \<times> ('e, 's, 'm, 'r, 'a, 'b, 'k) world) + (EvalStatus \<times> 'r \<times> ('e, 's, 'm, 'r, 'a, 'b, 'k) world)
    \<Rightarrow> ('e, 's, 'm, 'r, 'a, 'b, 'k) world" where
  "PolicyRequest_world x = (case x of Inl (e, w) \<Rightarrow> w | Inr (status, result, w) \<Rightarrow> w)"

text \<open>The world at process start: nothing allocated, nothing held by the loop, no history.\<close>

definition initial_world :: "(ec_ptr \<Rightarrow> 'e) \<Rightarrow> 's \<Rightarrow> ('e, 's, 'm, 'r, 'a, 'b, 'k) world" where
  "initial_world es s = \<lparr>ecs = es, next_ec = 0, state = s, scheduled = [], trace = []\<rparr>"

subsection \<open>Reading the trace\<close>

text \<open>The events a call added to the trace.\<close>

definition events_since :: "('e, 's, 'm, 'r, 'a, 'b, 'k) world \<Rightarrow> ('e, 's, 'm, 'r, 'a, 'b, 'k) world
    \<Rightarrow> ('m, 'r, 'a, 'b, 'k) event list" where
  "events_since w w' = drop (length (trace w)) (trace w')"

fun is_Invoke :: "('m, 'r, 'a, 'b, 'k) event \<Rightarrow> bool" where
  "is_Invoke (Ev_Invoke p m ec err args) = True"
| "is_Invoke ev = False"

fun is_callback_Run :: "('m, 'r, 'a, 'b, 'k) event \<Rightarrow> bool" where
  "is_callback_Run (Ev_callback_Run k st r) = True"
| "is_callback_Run ev = False"

fun is_RunOnValueChangeOrTimeout :: "('m, 'r, 'a, 'b, 'k) event \<Rightarrow> bool" where
  "is_RunOnValueChangeOrTimeout (Ev_RunOnValueChangeOrTimeout ec c ok) = True"
| "is_RunOnValueChangeOrTimeout ev = False"

text \<open>
  The events of one evaluation pass proper: log lines, the two resets and policy
  invocations.
\<close>

fun is_pass_event :: "('m, 'r, 'a, 'b, 'k) event \<Rightarrow> bool" where
  "is_pass_event (Ev_ResetExpiration ec) = True"
| "is_pass_event (Ev_ResetEvaluation ec) = True"
| "is_pass_event (Ev_LOG sev msg) = True"
| "is_pass_event (Ev_Invoke p m ec err args) = True"
| "is_pass_event ev = False"

text \<open>Per delivery callback: deliveries, requests posted at entry, and releases.\<close>

fun delivers :: "'k \<Rightarrow> ('m, 'r, 'a, 'b, 'k) event \<Rightarrow> bool" where
  "delivers k (Ev_callback_Run k' st r) = (k' = k)"
| "delivers k ev = False"

fun posts :: "'k \<Rightarrow> ('m, 'r, 'a, 'b, 'k) event \<Rightarrow> bool" where
  "posts k (Ev_RunFromMainLoop c) = (bound_callback c = k)"
| "posts k ev = False"

fun releases :: "'k \<Rightarrow> ('m, 'r, 'a, 'b, 'k) event \<Rightarrow> bool" where
  "releases k (Ev_released c) = (bound_callback c = k)"
| "releases k ev = False"

definition delivered :: "'k \<Rightarrow> ('m, 'r, 'a, 'b, 'k) event list \<Rightarrow> nat" where
  "delivered k evs = length (filter (delivers k) evs)"

definition requested :: "'k \<Rightarrow> ('m, 'r, 'a, 'b, 'k) event list \<Rightarrow> nat" where
  "requested k evs = length (filter (posts k) evs)"

definition released :: "'k \<Rightarrow> ('m, 'r, 'a, 'b, 'k) event list \<Rightarrow> nat" where
  "released k evs = length (filter (releases k) evs)"

definition pending :: "'k \<Rightarrow> ('m, 'a, 'b, 'k) closure list \<Rightarrow> nat" where
  "pending k cs = length (filter (\<lambda>c. bound_callback c = k) cs)"

text \<open>
  The books of one delivery callback balance: every request posted with it has been
  delivered, is still held by the event loop, or was released.
\<close>

definition accounted :: "'k \<Rightarrow> ('e, 's, 'm, 'r, 'a, 'b, 'k) world \<Rightarrow> bool" where
  "accounted k w \<longleftrightarrow>
     delivered k (trace w) + pending k (scheduled w) + released k (trace w)
       = requested k (trace w)"

text \<open>
  Where the closures the event loop holds come from. An \<open>eval_callback\<close> it holds was
  posted at the entry of an asynchronous request of the script so far and binds that
  request's arguments as the caller gave them. A \<open>reeval_callback\<close> it holds binds the
  converted arguments of such a request, and the conversion is in the trace. Every posted
  closure is an \<open>eval_callback\<close> on the context constructed at that entry, with both
  timeouts.
\<close>

fun captured_closure :: "('b \<Rightarrow> 'a) \<Rightarrow> ('e, 's, 'm, 'r, 'a, 'b, 'k) loop_action list
    \<Rightarrow> ('m, 'r, 'a, 'b, 'k) event list \<Rightarrow> ('m, 'a, 'b, 'k) closure \<Rightarrow> bool" where
  "captured_closure convert acts evs (Bind_eval_callback ec k m b) \<longleftrightarrow>
     Async k m b \<in> set acts \<and> Ev_RunFromMainLoop (Bind_eval_callback ec k m b) \<in> set evs"
| "captured_closure convert acts evs (Bind_OnPolicyReadyToEvaluate ec k m a) \<longleftrightarrow>
     (\<exists>b. Async k m b \<in> set acts \<and> a = convert b
          \<and> Ev_RunFromMainLoop (Bind_eval_callback ec k m b) \<in> set evs
          \<and> Ev_convert ec b a \<in> set evs)"

definition captured :: "('b \<Rightarrow> 'a) \<Rightarrow> ('e, 's, 'm, 'r, 'a) UpdateManager
    \<Rightarrow> ('e, 's, 'm, 'r, 'a, 'b, 'k) loop_action list \<Rightarrow> ('e, 's, 'm, 'r, 'a, 'b, 'k) world
    \<Rightarrow> bool" where
  "captured convert um acts w \<longleftrightarrow>
     (\<forall>c \<in> set (scheduled w). captured_closure convert acts (trace w) c)
     \<and> (\<forall>c. Ev_RunFromMainLoop c \<in> set (trace w) \<longrightarrow>
           (\<exists>k m b. Async k m b \<in> set acts \<and> c = Bind_eval_callback (bound_ec c) k m b)
           \<and> Ev_new_EvaluationContext (bound_ec c) (clock um) (evaluation_timeout um)
                (Some (expiration_timeout um)) \<in> set (trace w))"

text \<open>
  Conversions, per asynchronous request. A request is known by its context, constructed
  at its entry and bound in the closure posted there. Its arguments have been converted,
  or its \<open>eval_callback\<close> is still held by the event loop and has not run, or that
  closure was released before it ran.
\<close>

fun is_convert :: "('m, 'r, 'a, 'b, 'k) event \<Rightarrow> bool" where
  "is_convert (Ev_convert ec b a) = True"
| "is_convert ev = False"

fun converts :: "ec_ptr \<Rightarrow> ('m, 'r, 'a, 'b, 'k) event \<Rightarrow> bool" where
  "converts p (Ev_convert ec b a) = (ec = p)"
| "converts p ev = False"

fun posts_on :: "ec_ptr \<Rightarrow> ('m, 'r, 'a, 'b, 'k) event \<Rightarrow> bool" where
  "posts_on p (Ev_RunFromMainLoop c) = (bound_ec c = p)"
| "posts_on p ev = False"

fun unconverted :: "ec_ptr \<Rightarrow> ('m, 'a, 'b, 'k) closure \<Rightarrow> bool" where
  "unconverted p (Bind_eval_callback ec k m b) = (ec = p)"
| "unconverted p (Bind_OnPolicyReadyToEvaluate ec k m a) = False"

fun releases_unconverted :: "ec_ptr \<Rightarrow> ('m, 'r, 'a, 'b, 'k) event \<Rightarrow> bool" where
  "releases_unconverted p (Ev_released c) = unconverted p c"
| "releases_unconverted p ev = False"

definition converted :: "ec_ptr \<Rightarrow> ('m, 'r, 'a, 'b, 'k) event list \<Rightarrow> nat" where
  "converted p evs = length (filter (converts p) evs)"

definition posted_on :: "ec_ptr \<Rightarrow> ('m, 'r, 'a, 'b, 'k) event list \<Rightarrow> nat" where
  "posted_on p evs = length (filter (posts_on p) evs)"

definition held_unconverted :: "ec_ptr \<Rightarrow> ('m, 'a, 'b, 'k) closure list \<Rightarrow> nat" where
  "held_unconverted p cs = length (filter (unconverted p) cs)"

definition released_unconverted :: "ec_ptr \<Rightarrow> ('m, 'r, 'a, 'b, 'k) event list \<Rightarrow> nat" where
  "released_unconverted p evs = length (filter (releases_unconverted p) evs)"

definition conversions_accounted :: "('e, 's, 'm, 'r, 'a, 'b, 'k) world \<Rightarrow> bool" where
  "conversions_accounted w \<longleftrightarrow>
     (\<forall>p. converted p (trace w) + held_unconverted p (scheduled w)
            + released_unconverted p (trace w) = posted_on p (trace w)
          \<and> posted_on p (trace w) \<le> (if p < next_ec w then 1 else 0))"

text \<open>
  The context object a policy method finds at \<open>ec\<close>: what lines 28-35 leave of the object
  \<open>e\<close> the pass started on.
\<close>

definition ec_at_invocation :: "('e, 'r) collaborators \<Rightarrow> 'e \<Rightarrow> 'e" where
  "ec_at_invocation co e =
     ResetEvaluation co (if is_expired co e then ResetExpiration co e else e)"

definition begin_events :: "('e, 'r) collaborators \<Rightarrow> ('e, 's, 'm, 'r, 'a) UpdateManager
    \<Rightarrow> ec_ptr \<Rightarrow> 'm \<Rightarrow> 'e \<Rightarrow> ('m, 'r, 'a, 'b, 'k) event list" where
  "begin_events co um ec m e =
     (if is_expired co e
      then [Ev_LOG WARNING (''Request timed out, evaluation context: '' @ DumpContext co e),
            Ev_ResetExpiration ec]
      else [])
     @ [Ev_ResetEvaluation ec, Ev_LOG INFO (PolicyRequestName (policy um) m @ '': START'')]"

definition fallback_events :: "EvalStatus \<Rightarrow> string \<Rightarrow> ('m, 'r, 'a, 'b, 'k) event list" where
  "fallback_events st2 err2 =
     (if st2 = kFailed then [Ev_LOG WARNING (''Evaluating default policy failed: '' @ err2)]
      else if st2 = kAskMeAgainLater
      then [Ev_LOG ERROR ''Default policy would block; this is a bug, forcing failure.'']
      else [])"

subsection \<open>A small instance\<close>

text \<open>
  A context object is the number of variables read in the current pass and whether the
  expiration timeout fired; it can wait when a variable was read. The primary policy
  decides from the State (0: not yet, 2: yes, otherwise an error) after reading as many
  variables as its argument says; the default policy allows, except in the States 3
  (it would block) and 4 (it fails).
\<close>

datatype ex_method = UpdateCheckAllowed | UpdateCanStart

definition ex_co :: "(nat \<times> bool, nat) collaborators" where
  "ex_co = \<lparr>EvaluationContext_ctor = (\<lambda>clk eval_timeout exp_timeout. (0, False)),
            is_expired = snd,
            DumpContext = (\<lambda>e. ''ctx''),
            ResetExpiration = (\<lambda>e. (fst e, False)),
            ResetEvaluation = (\<lambda>e. (0, snd e)),
            RunOnValueChangeOrTimeout = (\<lambda>e. (0 < fst e, e)),
            R_ctor = 0,
            DCHECK_IS_ON = False\<rparr>"

text \<open>The same collaborators in a build that compiles \<open>DCHECK\<close> in.\<close>

definition ex_co_debug :: "(nat \<times> bool, nat) collaborators" where
  "ex_co_debug = ex_co\<lparr>DCHECK_IS_ON := True\<rparr>"

definition ex_policy :: "(nat \<times> bool, nat, ex_method, nat, nat) Policy" where
  "ex_policy =
     \<lparr>operation = (\<lambda>m e s err r a.
         (if s = 0 then kAskMeAgainLater else if s = 2 then kSucceeded else kFailed,
          (fst e + a, snd e), s, err @ ''no decision'', Suc r)),
      PolicyRequestName = (\<lambda>m. case m of UpdateCheckAllowed \<Rightarrow> ''UpdateCheckAllowed''
                                 | UpdateCanStart \<Rightarrow> ''UpdateCanStart'')\<rparr>"

definition ex_default_policy :: "(nat \<times> bool, nat, ex_method, nat, nat) Policy" where
  "ex_default_policy =
     \<lparr>operation = (\<lambda>m e s err r a.
         (if s = 3 then kAskMeAgainLater else if s = 4 then kFailed else kSucceeded,
          e, s, err @ ''default failed'', 42)),
      PolicyRequestName = (\<lambda>m. ''default'')\<rparr>"

definition ex_um :: "(nat \<times> bool, nat, ex_method, nat, nat) UpdateManager" where
  "ex_um = \<lparr>policy = ex_policy, default_policy = ex_default_policy, clock = 0,
            evaluation_timeout = 5, expiration_timeout = 60\<rparr>"

definition ex_world :: "bool \<Rightarrow> nat \<Rightarrow> (nat \<times> bool, nat, ex_method, nat, nat, bool, nat) world" where
  "ex_world expired s = initial_world (\<lambda>a. (0, expired)) s"

text \<open>
  An asynchronous request whose first pass must wait and whose second pass, after the
  State changed and the expiration timeout fired, succeeds. The caller's argument is a
  \<open>bool\<close>, the operation's parameter a number.
\<close>

definition ex_eval_closure :: "(ex_method, nat, bool, nat) closure" where
  "ex_eval_closure = Bind_eval_callback 0 7 UpdateCheckAllowed True"

definition ex_closure :: "(ex_method, nat, bool, nat) closure" where
  "ex_closure = Bind_OnPolicyReadyToEvaluate 0 7 UpdateCheckAllowed (of_bool True)"

definition ex_script :: "(nat \<times> bool, nat, ex_method, nat, nat, bool, nat) loop_action list" where
  "ex_script = [Async 7 UpdateCheckAllowed True, Fire ex_eval_closure,
                Environment (\<lambda>a. (2, True)) 2, Fire ex_closure]"

text \<open>The world after the request's first pass, which had to wait.\<close>

definition ex_after_first_pass :: "(nat \<times> bool, nat, ex_method, nat, nat, bool, nat) world" where
  "ex_after_first_pass =
     last_world (run_loop ex_co ex_um of_bool [Async 7 UpdateCheckAllowed True, Fire ex_eval_closure]
                   (initial_world (\<lambda>a. (0, False)) 0))"

text \<open>The world after two more passes while the State stays undecided.\<close>

definition ex_after_three_passes :: "(nat \<times> bool, nat, ex_method, nat, nat, bool, nat) world" where
  "ex_after_three_passes =
     last_world (run_loop ex_co ex_um of_bool [Fire ex_closure, Fire ex_closure]
                   ex_after_first_pass)"

text \<open>The request released by the event loop before its first pass.\<close>

definition ex_released_unrun :: "(nat \<times> bool, nat, ex_method, nat, nat, bool, nat) world" where
  "ex_released_unrun =
     last_world (run_loop ex_co ex_um of_bool
                   [Async 7 UpdateCheckAllowed True, Release ex_eval_closure]
                   (initial_world (\<lambda>a. (0, False)) 0))"

section \<open>Properties\<close>

subsection \<open>What one evaluation pass does\<close>

lemmas prim_defs = emit_def LOG_def ec_ResetExpiration_def ec_ResetEvaluation_def
  callback_Run_def RunFromMainLoop_def ec_RunOnValueChangeOrTimeout_def 
  new_EvaluationContext_def

lemma EvaluatePolicy_begin_eq:
  "EvaluatePolicy_begin co um ec m w =
     w\<lparr>trace := trace w @ begin_events co um ec m (ecs w ec),
       ecs := (ecs w)(ec := ec_at_invocation co (ecs w ec))\<rparr>"
  by (simp add: EvaluatePolicy_begin_def prim_defs begin_events_def ec_at_invocation_def)

lemma invoke_eq:
  assumes "operation (policy_of um p) m (ecs w ec) (state w) err result args = (st, e', s', err', r')"
  shows "invoke um p m ec err result args w =
           (st, err', r',
            w\<lparr>trace := trace w @ [Ev_Invoke p m ec err args],
              ecs := (ecs w)(ec := e'), state := s'\<rparr>)"
  using assms by (simp add: invoke_def emit_def)

lemma EvaluatePolicy_primary_decides:
  assumes prim: "operation (policy um) m (ec_at_invocation co (ecs w ec)) (state w) [] result args
                   = (st1, e1, s1, err1, r1)"
      and nf: "st1 \<noteq> kFailed"
  shows "EvaluatePolicy co um ec m result args w =
           (st1, r1,
            w\<lparr>trace := trace w @ begin_events co um ec m (ecs w ec)
                 @ [Ev_Invoke Primary m ec [] args,
                    Ev_LOG INFO (PolicyRequestName (policy um) m @ '': END'')],
              ecs := (ecs w)(ec := e1), state := s1\<rparr>)"
proof -
  let ?w1 = "EvaluatePolicy_begin co um ec m w"
  have "operation (policy_of um Primary) m (ecs ?w1 ec) (state ?w1) [] result args
          = (st1, e1, s1, err1, r1)"
    using prim by (simp add: EvaluatePolicy_begin_eq policy_of_def)
  from invoke_eq [OF this] show ?thesis
    using nf by (simp add: EvaluatePolicy_def EvaluatePolicy_begin_eq LOG_def emit_def)
qed

lemma EvaluatePolicy_fallback_eq:
  assumes dflt: "operation (default_policy um) m (ecs w ec) (state w) [] r1 args
                   = (st2, e2, s2, err2, r2)"
  shows "EvaluatePolicy_fallback co um ec m err1 r1 args w =
           (if st2 = kAskMeAgainLater then kFailed else st2, r2,
            w\<lparr>trace := trace w
                 @ [Ev_LOG WARNING (''Evaluating policy failed: '' @ err1 @ [CHR 0x0A]
                                     @ ''Evaluation context: '' @ DumpContext co (ecs w ec)),
                    Ev_Invoke Default m ec [] args]
                 @ fallback_events st2 err2,
              ecs := (ecs w)(ec := e2), state := s2\<rparr>)"
proof -
  let ?w1 = "LOG WARNING (''Evaluating policy failed: '' @ err1 @ [CHR 0x0A]
                           @ ''Evaluation context: '' @ DumpContext co (ecs w ec)) w"
  have "operation (policy_of um Default) m (ecs ?w1 ec) (state ?w1) [] r1 args
          = (st2, e2, s2, err2, r2)"
    using dflt by (simp add: policy_of_def LOG_def emit_def)
  from invoke_eq [OF this] show ?thesis
    by (simp add: EvaluatePolicy_fallback_def fallback_events_def LOG_def emit_def)
qed

lemma EvaluatePolicy_default_decides:
  assumes prim: "operation (policy um) m (ec_at_invocation co (ecs w ec)) (state w) [] result args
                   = (kFailed, e1, s1, err1, r1)"
      and dflt: "operation (default_policy um) m e1 s1 [] r1 args = (st2, e2, s2, err2, r2)"
  shows "EvaluatePolicy co um ec m result args w =
           (if st2 = kAskMeAgainLater then kFailed else st2, r2,
            w\<lparr>trace := trace w @ begin_events co um ec m (ecs w ec)
                 @ [Ev_Invoke Primary m ec [] args,
                    Ev_LOG WARNING (''Evaluating policy failed: '' @ err1 @ [CHR 0x0A]
                                     @ ''Evaluation context: '' @ DumpContext co e1),
                    Ev_Invoke Default m ec [] args]
                 @ fallback_events st2 err2
                 @ [Ev_LOG INFO (PolicyRequestName (policy um) m @ '': END'')],
              ecs := (ecs w)(ec := e2), state := s2\<rparr>)"
proof -
  let ?w1 = "EvaluatePolicy_begin co um ec m w"
  have p: "operation (policy_of um Primary) m (ecs ?w1 ec) (state ?w1) [] result args
          = (kFailed, e1, s1, err1, r1)"
    using prim by (simp add: EvaluatePolicy_begin_eq policy_of_def)
  let ?w2 = "?w1\<lparr>trace := trace ?w1 @ [Ev_Invoke Primary m ec [] args],
                  ecs := (ecs ?w1)(ec := e1), state := s1\<rparr>"
  have d: "operation (default_policy um) m (ecs ?w2 ec) (state ?w2) [] r1 args
             = (st2, e2, s2, err2, r2)"
    using dflt by simp
  show ?thesis
    by (simp add: EvaluatePolicy_def invoke_eq [OF p] EvaluatePolicy_fallback_eq [OF d])
       (simp add: EvaluatePolicy_begin_eq LOG_def emit_def)
qed

lemma filter_Invoke_begin_events [simp]:
  "filter is_Invoke (begin_events co um ec m e) = []"
  by (simp add: begin_events_def)

lemma filter_Invoke_fallback_events [simp]:
  "filter is_Invoke (fallback_events st2 err2) = []"
  by (simp add: fallback_events_def)

lemmas ex_defs = ex_co_def ex_co_debug_def ex_policy_def ex_default_policy_def ex_um_def ex_world_def
  initial_world_def ec_at_invocation_def

subsection \<open>Fallback to the default policy\<close>

text \<open>
  C1. In every evaluation pass the default policy's operation is invoked if and only if
  the primary policy's invocation returned Failed. The policy invocations of the pass are
  the primary's alone, or the primary's followed by the default's with the same method
  pointer, the same context pointer and the same arguments; the default runs on the
  context object, State and result slot as the primary left them (\<open>e1\<close>, \<open>s1\<close>, \<open>r1\<close>).
  When the primary returns Succeeded or AskMeAgainLater the pass returns that status and
  the primary's result.
\<close>

theorem EvaluatePolicy_default_iff_primary_failed:
  assumes prim: "operation (policy um) m (ec_at_invocation co (ecs w ec)) (state w) [] result args
                   = (st1, e1, s1, err1, r1)"
      and dflt: "operation (default_policy um) m e1 s1 [] r1 args = (st2, e2, s2, err2, r2)"
      and pass: "EvaluatePolicy co um ec m result args w = (st, r, w')"
  shows "filter is_Invoke (events_since w w') =
           (if st1 = kFailed
            then [Ev_Invoke Primary m ec [] args, Ev_Invoke Default m ec [] args]
            else [Ev_Invoke Primary m ec [] args])
         \<and> ((\<exists>m' ec' err' args'. Ev_Invoke Default m' ec' err' args' \<in> set (events_since w w'))
              \<longleftrightarrow> st1 = kFailed)
         \<and> (st1 \<noteq> kFailed \<longrightarrow>
              st = st1 \<and> r = r1 \<and> ecs w' = (ecs w)(ec := e1) \<and> state w' = s1)
         \<and> (st1 = kFailed \<longrightarrow>
              st = (if st2 = kAskMeAgainLater then kFailed else st2) \<and> r = r2
              \<and> ecs w' = (ecs w)(ec := e2) \<and> state w' = s2)"
proof (cases "st1 = kFailed")
  case True
  have inv: "filter is_Invoke (events_since w w')
      = [Ev_Invoke Primary m ec [] args, Ev_Invoke Default m ec [] args]"
    using EvaluatePolicy_default_decides [OF prim [unfolded True] dflt] pass
    by (auto simp add: events_since_def)
  have "set (filter is_Invoke (events_since w w'))
      = {Ev_Invoke Primary m ec [] args, Ev_Invoke Default m ec [] args}"
    by (simp add: inv)
  then have "Ev_Invoke Default m ec [] args \<in> set (events_since w w')"
    by auto
  then have ex: "\<exists>m' ec' err' args'. Ev_Invoke Default m' ec' err' args' \<in> set (events_since w w')"
    by blast
  show ?thesis
    using EvaluatePolicy_default_decides [OF prim [unfolded True] dflt] pass True inv ex
    by auto
next
  case False
  have inv: "filter is_Invoke (events_since w w') = [Ev_Invoke Primary m ec [] args]"
    using EvaluatePolicy_primary_decides [OF prim False] pass
    by (auto simp add: events_since_def)
  have "\<not> (\<exists>m' ec' err' args'. Ev_Invoke Default m' ec' err' args' \<in> set (events_since w w'))"
  proof
    assume "\<exists>m' ec' err' args'. Ev_Invoke Default m' ec' err' args' \<in> set (events_since w w')"
    then obtain m' ec' err' args' where
      "Ev_Invoke Default m' ec' err' args' \<in> set (events_since w w')" by blast
    then have "Ev_Invoke Default m' ec' err' args' \<in> set (filter is_Invoke (events_since w w'))"
      by simp
    then show False by (simp add: inv)
  qed
  then show ?thesis
    using EvaluatePolicy_primary_decides [OF prim False] pass False inv
    by auto
qed


theorem EvaluatePolicy_default_iff_primary_failed_witness:
  "filter is_Invoke (events_since (ex_world False 5)
      (snd (snd (EvaluatePolicy ex_co ex_um 0 UpdateCheckAllowed 0 2 (ex_world False 5)))))
     = [Ev_Invoke Primary UpdateCheckAllowed 0 [] 2, Ev_Invoke Default UpdateCheckAllowed 0 [] 2]
   \<and> fst (EvaluatePolicy ex_co ex_um 0 UpdateCheckAllowed 0 2 (ex_world False 5)) = kSucceeded
   \<and> filter is_Invoke (events_since (ex_world False 0)
      (snd (snd (EvaluatePolicy ex_co ex_um 0 UpdateCheckAllowed 0 2 (ex_world False 0)))))
     = [Ev_Invoke Primary UpdateCheckAllowed 0 [] 2]
   \<and> fst (EvaluatePolicy ex_co ex_um 0 UpdateCheckAllowed 0 2 (ex_world False 0))
     = kAskMeAgainLater"
proof -
  let ?w = "ex_world False 5"
  let ?v = "ex_world False 0"
  obtain st r w' where pass: "EvaluatePolicy ex_co ex_um 0 UpdateCheckAllowed 0 2 ?w = (st, r, w')"
    by (metis prod_cases3)
  obtain su q v' where pass': "EvaluatePolicy ex_co ex_um 0 UpdateCheckAllowed 0 2 ?v = (su, q, v')"
    by (metis prod_cases3)
  have prim: "operation (policy ex_um) UpdateCheckAllowed (ec_at_invocation ex_co (ecs ?w 0))
                (state ?w) [] 0 2 = (kFailed, (2, False), 5, ''no decision'', 1)"
    by (simp add: ex_defs)
  have dflt: "operation (default_policy ex_um) UpdateCheckAllowed (2, False) 5 [] 1 2
                = (kSucceeded, (2, False), 5, ''default failed'', 42)"
    by (simp add: ex_defs)
  have prim': "operation (policy ex_um) UpdateCheckAllowed (ec_at_invocation ex_co (ecs ?v 0))
                (state ?v) [] 0 2 = (kAskMeAgainLater, (2, False), 0, ''no decision'', 1)"
    by (simp add: ex_defs)
  have dflt': "operation (default_policy ex_um) UpdateCheckAllowed (2, False) 0 [] 1 2
                = (kSucceeded, (2, False), 0, ''default failed'', 42)"
    by (simp add: ex_defs)
  show ?thesis
    unfolding pass pass'
    using EvaluatePolicy_default_iff_primary_failed [OF prim dflt pass]
      EvaluatePolicy_default_iff_primary_failed [OF prim' dflt' pass']
    by simp
qed



text \<open>
  C2. In every evaluation pass in which the primary policy returns Failed and the default
  policy then returns AskMeAgainLater, the status the pass returns is Failed, never
  AskMeAgainLater, and the downgrade is logged at error severity.
\<close>

theorem EvaluatePolicy_default_blocking_forced_to_failure:
  assumes prim: "operation (policy um) m (ec_at_invocation co (ecs w ec)) (state w) [] result args
                   = (kFailed, e1, s1, err1, r1)"
      and dflt: "operation (default_policy um) m e1 s1 [] r1 args
                   = (kAskMeAgainLater, e2, s2, err2, r2)"
      and pass: "EvaluatePolicy co um ec m result args w = (st, r, w')"
  shows "st = kFailed \<and> st \<noteq> kAskMeAgainLater
         \<and> Ev_LOG ERROR ''Default policy would block; this is a bug, forcing failure.''
             \<in> set (events_since w w')"
  using EvaluatePolicy_default_decides [OF prim dflt] pass
  by (auto simp add: events_since_def fallback_events_def)

theorem EvaluatePolicy_default_blocking_forced_to_failure_witness:
  "fst (EvaluatePolicy ex_co ex_um 0 UpdateCheckAllowed 0 2 (ex_world False 3)) = kFailed"
proof -
  let ?w = "ex_world False 3"
  obtain st r w' where pass: "EvaluatePolicy ex_co ex_um 0 UpdateCheckAllowed 0 2 ?w = (st, r, w')"
    by (metis prod_cases3)
  have prim: "operation (policy ex_um) UpdateCheckAllowed (ec_at_invocation ex_co (ecs ?w 0))
                (state ?w) [] 0 2 = (kFailed, (2, False), 3, ''no decision'', 1)"
    by (simp add: ex_defs)
  have dflt: "operation (default_policy ex_um) UpdateCheckAllowed (2, False) 3 [] 1 2
                = (kAskMeAgainLater, (2, False), 3, ''default failed'', 42)"
    by (simp add: ex_defs)
  show ?thesis
    unfolding pass
    using EvaluatePolicy_default_blocking_forced_to_failure [OF prim dflt pass]
    by simp
qed

text \<open>
  C9. Whenever the primary policy returns Failed, the default policy is invoked on an
  empty error slot: the slot is cleared between the two invocations. What the pass reports
  after the default's invocation is built from the default's own error output \<open>err2\<close>,
  which the default produced from the empty slot; the primary's text \<open>err1\<close> is not part
  of it.
\<close>

theorem EvaluatePolicy_fallback_error_slot_cleared:
  assumes prim: "operation (policy um) m (ec_at_invocation co (ecs w ec)) (state w) [] result args
                   = (kFailed, e1, s1, err1, r1)"
      and dflt: "operation (default_policy um) m e1 s1 [] r1 args = (st2, e2, s2, err2, r2)"
      and pass: "EvaluatePolicy co um ec m result args w = (st, r, w')"
  shows "(\<exists>before. events_since w w' =
            before
            @ [Ev_Invoke Default m ec [] args]
            @ (if st2 = kFailed
               then [Ev_LOG WARNING (''Evaluating default policy failed: '' @ err2)]
               else if st2 = kAskMeAgainLater
               then [Ev_LOG ERROR ''Default policy would block; this is a bug, forcing failure.'']
               else [])
            @ [Ev_LOG INFO (PolicyRequestName (policy um) m @ '': END'')])
         \<and> (\<forall>m' ec' err' args'.
               Ev_Invoke Default m' ec' err' args' \<in> set (events_since w w') \<longrightarrow> err' = [])"
proof -
  let ?pre = "begin_events co um ec m (ecs w ec)
                 @ [Ev_Invoke Primary m ec [] args,
                    Ev_LOG WARNING (''Evaluating policy failed: '' @ err1 @ [CHR 0x0A]
                                     @ ''Evaluation context: '' @ DumpContext co e1)]"
  have evs: "events_since w w' =
      ?pre @ [Ev_Invoke Default m ec [] args] @ fallback_events st2 err2
        @ [Ev_LOG INFO (PolicyRequestName (policy um) m @ '': END'')]"
    using EvaluatePolicy_default_decides [OF prim dflt] pass
    by (auto simp add: events_since_def)
  have a: "\<exists>before. events_since w w' =
            before
            @ [Ev_Invoke Default m ec [] args]
            @ (if st2 = kFailed
               then [Ev_LOG WARNING (''Evaluating default policy failed: '' @ err2)]
               else if st2 = kAskMeAgainLater
               then [Ev_LOG ERROR ''Default policy would block; this is a bug, forcing failure.'']
               else [])
            @ [Ev_LOG INFO (PolicyRequestName (policy um) m @ '': END'')]"
    unfolding evs fallback_events_def by blast
  have b: "\<forall>m' ec' err' args'.
               Ev_Invoke Default m' ec' err' args' \<in> set (events_since w w') \<longrightarrow> err' = []"
    unfolding evs by (auto simp add: begin_events_def fallback_events_def)
  from a b show ?thesis by blast
qed

theorem EvaluatePolicy_fallback_error_slot_cleared_witness:
  "drop 4 (events_since (ex_world False 4)
      (snd (snd (EvaluatePolicy ex_co ex_um 0 UpdateCheckAllowed 0 2 (ex_world False 4)))))
     = [Ev_Invoke Default UpdateCheckAllowed 0 [] 2,
        Ev_LOG WARNING ''Evaluating default policy failed: default failed'',
        Ev_LOG INFO ''UpdateCheckAllowed: END'']"
proof -
  let ?w = "ex_world False 4"
  obtain st r w' where pass: "EvaluatePolicy ex_co ex_um 0 UpdateCheckAllowed 0 2 ?w = (st, r, w')"
    by (metis prod_cases3)
  have prim: "operation (policy ex_um) UpdateCheckAllowed (ec_at_invocation ex_co (ecs ?w 0))
                (state ?w) [] 0 2 = (kFailed, (2, False), 4, ''no decision'', 1)"
    by (simp add: ex_defs)
  have dflt: "operation (default_policy ex_um) UpdateCheckAllowed (2, False) 4 [] 1 2
                = (kFailed, (2, False), 4, ''default failed'', 42)"
    by (simp add: ex_defs)
  have len: "length (events_since ?w w') = 7"
    using EvaluatePolicy_default_decides [OF prim dflt] pass
    by (auto simp add: events_since_def begin_events_def fallback_events_def ex_defs)
  have name: "PolicyRequestName (policy ex_um) UpdateCheckAllowed = ''UpdateCheckAllowed''"
    by (simp add: ex_defs)
  from EvaluatePolicy_fallback_error_slot_cleared [OF prim dflt pass]
  obtain before where evs: "events_since ?w w' = before
       @ [Ev_Invoke Default UpdateCheckAllowed 0 [] 2,
          Ev_LOG WARNING ''Evaluating default policy failed: default failed'',
          Ev_LOG INFO ''UpdateCheckAllowed: END'']"
    by (auto simp add: name)
  with len have "length before = 4" by simp
  with evs show ?thesis unfolding pass by simp
qed


subsection \<open>Expiration\<close>

text \<open>
  C5. If the context reports \<open>is_expired()\<close> at the start of a pass, the pass logs the
  context dump, calls \<open>ResetExpiration()\<close> and then \<open>ResetEvaluation()\<close>, and goes on
  to invoke the policy: the status is the one the policies decide, as in any other pass,
  and the pass runs to its END line. If the context is not expired, \<open>ResetExpiration()\<close>
  is not called.
\<close>

theorem EvaluatePolicy_expiration_reset_before_evaluation:
  assumes prim: "operation (policy um) m (ec_at_invocation co (ecs w ec)) (state w) [] result args
                   = (st1, e1, s1, err1, r1)"
      and dflt: "operation (default_policy um) m e1 s1 [] r1 args = (st2, e2, s2, err2, r2)"
      and pass: "EvaluatePolicy co um ec m result args w = (st, r, w')"
  shows "(is_expired co (ecs w ec) \<longrightarrow>
            (\<exists>rest. events_since w w' =
               [Ev_LOG WARNING (''Request timed out, evaluation context: ''
                                 @ DumpContext co (ecs w ec)),
                Ev_ResetExpiration ec,
                Ev_ResetEvaluation ec,
                Ev_LOG INFO (PolicyRequestName (policy um) m @ '': START''),
                Ev_Invoke Primary m ec [] args] @ rest)
            \<and> ec_at_invocation co (ecs w ec)
                = ResetEvaluation co (ResetExpiration co (ecs w ec)))
         \<and> (\<not> is_expired co (ecs w ec) \<longrightarrow>
            (\<forall>a. Ev_ResetExpiration a \<notin> set (events_since w w'))
            \<and> (\<exists>rest. events_since w w' =
               [Ev_ResetEvaluation ec,
                Ev_LOG INFO (PolicyRequestName (policy um) m @ '': START''),
                Ev_Invoke Primary m ec [] args] @ rest)
            \<and> ec_at_invocation co (ecs w ec) = ResetEvaluation co (ecs w ec))
         \<and> st = (if st1 = kFailed then (if st2 = kAskMeAgainLater then kFailed else st2)
                  else st1)
         \<and> last (events_since w w') = Ev_LOG INFO (PolicyRequestName (policy um) m @ '': END'')"
proof (cases "st1 = kFailed")
  case True
  show ?thesis
    using EvaluatePolicy_default_decides [OF prim [unfolded True] dflt] pass True
    by (auto simp add: events_since_def fallback_events_def begin_events_def ec_at_invocation_def)
next
  case False
  show ?thesis
    using EvaluatePolicy_primary_decides [OF prim False] pass False
    by (auto simp add: events_since_def begin_events_def ec_at_invocation_def)
qed

theorem EvaluatePolicy_expiration_reset_before_evaluation_witness:
  "is_expired ex_co (ecs (ex_world True 2) 0)
   \<and> take 5 (events_since (ex_world True 2)
        (snd (snd (EvaluatePolicy ex_co ex_um 0 UpdateCanStart 0 2 (ex_world True 2)))))
     = [Ev_LOG WARNING ''Request timed out, evaluation context: ctx'',
        Ev_ResetExpiration 0,
        Ev_ResetEvaluation 0,
        Ev_LOG INFO ''UpdateCanStart: START'',
        Ev_Invoke Primary UpdateCanStart 0 [] 2]
   \<and> last (events_since (ex_world True 2)
        (snd (snd (EvaluatePolicy ex_co ex_um 0 UpdateCanStart 0 2 (ex_world True 2)))))
     = Ev_LOG INFO ''UpdateCanStart: END''
   \<and> fst (EvaluatePolicy ex_co ex_um 0 UpdateCanStart 0 2 (ex_world True 2)) = kSucceeded"
proof -
  let ?w = "ex_world True 2"
  obtain st r w' where pass: "EvaluatePolicy ex_co ex_um 0 UpdateCanStart 0 2 ?w = (st, r, w')"
    by (metis prod_cases3)
  have prim: "operation (policy ex_um) UpdateCanStart (ec_at_invocation ex_co (ecs ?w 0))
                (state ?w) [] 0 2 = (kSucceeded, (2, False), 2, ''no decision'', 1)"
    by (simp add: ex_defs)
  have dflt: "operation (default_policy ex_um) UpdateCanStart (2, False) 2 [] 1 2
                = (kSucceeded, (2, False), 2, ''default failed'', 42)"
    by (simp add: ex_defs)
  have exp: "is_expired ex_co (ecs ?w 0)"
    by (simp add: ex_defs)
  have names: "PolicyRequestName (policy ex_um) UpdateCanStart = ''UpdateCanStart''"
    "DumpContext ex_co (ecs ?w 0) = ''ctx''"
    by (simp_all add: ex_defs)
  show ?thesis
    unfolding pass
    using EvaluatePolicy_expiration_reset_before_evaluation [OF prim dflt pass] exp
    by (auto simp add: names)
qed




subsection \<open>One pass of an asynchronous request\<close>

lemma pass_events_begin [simp]: "list_all is_pass_event (begin_events co um ec m e)"
  by (simp add: begin_events_def)

lemma pass_events_fallback [simp]: "list_all is_pass_event (fallback_events st2 err2)"
  by (simp add: fallback_events_def)

lemma EvaluatePolicy_frame:
  assumes pass: "EvaluatePolicy co um ec m result args w = (st, r, w')"
  shows "scheduled w' = scheduled w \<and> next_ec w' = next_ec w
         \<and> (\<exists>evs. trace w' = trace w @ evs \<and> list_all is_pass_event evs)"
proof -
  obtain st1 e1 s1 err1 r1 where
    prim: "operation (policy um) m (ec_at_invocation co (ecs w ec)) (state w) [] result args
             = (st1, e1, s1, err1, r1)"
    by (metis prod_cases5)
  obtain st2 e2 s2 err2 r2 where
    dflt: "operation (default_policy um) m e1 s1 [] r1 args = (st2, e2, s2, err2, r2)"
    by (metis prod_cases5)
  show ?thesis
  proof (cases "st1 = kFailed")
    case True
    from EvaluatePolicy_default_decides [OF prim [unfolded True] dflt] pass
    show ?thesis by auto
  next
    case False
    from EvaluatePolicy_primary_decides [OF prim False] pass
    show ?thesis by auto
  qed
qed

lemma OnPolicyReadyToEvaluate_delivers:
  assumes pass: "EvaluatePolicy co um ec m (R_ctor co) args w = (st, r, w1)"
      and fin: "st \<noteq> kAskMeAgainLater"
  shows "OnPolicyReadyToEvaluate co um ec k m args w =
           w1\<lparr>trace := trace w1 @ [Ev_callback_Run k st r]\<rparr>"
  using fin by (simp add: OnPolicyReadyToEvaluate_def pass callback_Run_def emit_def)

lemma OnPolicyReadyToEvaluate_reschedules:
  assumes pass: "EvaluatePolicy co um ec m (R_ctor co) args w = (kAskMeAgainLater, r, w1)"
      and wait: "RunOnValueChangeOrTimeout co (ecs w1 ec) = (True, e')"
  shows "OnPolicyReadyToEvaluate co um ec k m args w =
           w1\<lparr>trace := trace w1 @ [Ev_RunOnValueChangeOrTimeout ec
                                     (Bind_OnPolicyReadyToEvaluate ec k m args) True],
              ecs := (ecs w1)(ec := e'),
              scheduled := scheduled w1 @ [Bind_OnPolicyReadyToEvaluate ec k m args]\<rparr>"
  by (simp add: OnPolicyReadyToEvaluate_def pass ec_RunOnValueChangeOrTimeout_def wait emit_def
      Let_def)

lemma OnPolicyReadyToEvaluate_unschedulable:
  assumes pass: "EvaluatePolicy co um ec m (R_ctor co) args w = (kAskMeAgainLater, r, w1)"
      and wait: "RunOnValueChangeOrTimeout co (ecs w1 ec) = (False, e')"
  shows "OnPolicyReadyToEvaluate co um ec k m args w =
           w1\<lparr>trace := trace w1 @ [Ev_RunOnValueChangeOrTimeout ec
                                     (Bind_OnPolicyReadyToEvaluate ec k m args) False,
                                   Ev_LOG ERROR (''Failed to schedule a reevaluation of policy ''
                                                  @ PolicyRequestName (policy um) m
                                                  @ ''; this is a bug.''),
                                   Ev_callback_Run k kAskMeAgainLater r],
              ecs := (ecs w1)(ec := e')\<rparr>"
  by (simp add: OnPolicyReadyToEvaluate_def pass ec_RunOnValueChangeOrTimeout_def wait
      emit_def LOG_def callback_Run_def Let_def)

text \<open>
  C3, as the code has it. When the pass of an asynchronous request yields AskMeAgainLater
  and \<open>RunOnValueChangeOrTimeout\<close> returns false, the delivery callback is run exactly
  once, with the status of the pass, which is AskMeAgainLater (line 97 passes \<open>status\<close>
  on unchanged; nothing sets it to Failed), after the error log line; no closure is
  registered, so the request has no further pass. The counterexample is the claim as
  stated: the callback does not receive Failed.
\<close>

theorem OnPolicyReadyToEvaluate_unschedulable_delivers_status:
  assumes pass: "EvaluatePolicy co um ec m (R_ctor co) args w = (kAskMeAgainLater, r, w1)"
      and wait: "RunOnValueChangeOrTimeout co (ecs w1 ec) = (False, e')"
      and ran: "OnPolicyReadyToEvaluate co um ec k m args w = w'"
  shows "filter is_callback_Run (events_since w w') = [Ev_callback_Run k kAskMeAgainLater r]
         \<and> events_since w1 w' =
             [Ev_RunOnValueChangeOrTimeout ec (Bind_OnPolicyReadyToEvaluate ec k m args) False,
              Ev_LOG ERROR (''Failed to schedule a reevaluation of policy ''
                             @ PolicyRequestName (policy um) m @ ''; this is a bug.''),
              Ev_callback_Run k kAskMeAgainLater r]
         \<and> scheduled w' = scheduled w"
proof -
  from EvaluatePolicy_frame [OF pass] obtain evs where
    fr: "scheduled w1 = scheduled w" "trace w1 = trace w @ evs" "list_all is_pass_event evs"
    by blast
  have no: "filter is_callback_Run evs = []"
    using fr(3) by (induction evs) (auto elim: is_pass_event.elims)
  show ?thesis
    using OnPolicyReadyToEvaluate_unschedulable [OF pass wait, of k] ran fr no
    by (auto simp add: events_since_def)
qed


lemma ex_pass_unschedulable:
  "EvaluatePolicy ex_co ex_um 0 UpdateCheckAllowed (R_ctor ex_co) 0 (ex_world False 0) =
     (kAskMeAgainLater, Suc 0,
      (ex_world False 0)
        \<lparr>trace := [Ev_ResetEvaluation 0, Ev_LOG INFO ''UpdateCheckAllowed: START'',
                   Ev_Invoke Primary UpdateCheckAllowed 0 [] 0,
                   Ev_LOG INFO ''UpdateCheckAllowed: END''],
         ecs := (ecs (ex_world False 0))(0 := (0, False)), state := 0\<rparr>)"
proof -
  let ?w = "ex_world False 0"
  have prim: "operation (policy ex_um) UpdateCheckAllowed (ec_at_invocation ex_co (ecs ?w 0))
                (state ?w) [] (R_ctor ex_co) 0 = (kAskMeAgainLater, (0, False), 0, ''no decision'', Suc 0)"
    by (simp add: ex_defs)
  have "kAskMeAgainLater \<noteq> kFailed" by simp
  from EvaluatePolicy_primary_decides [OF prim this] show ?thesis
    by (simp add: begin_events_def ex_defs)
qed

theorem OnPolicyReadyToEvaluate_unschedulable_counterexample:
  "fst (EvaluatePolicy ex_co ex_um 0 UpdateCheckAllowed (R_ctor ex_co) 0 (ex_world False 0))
     = kAskMeAgainLater
   \<and> \<not> fst (RunOnValueChangeOrTimeout ex_co
        (ecs (snd (snd (EvaluatePolicy ex_co ex_um 0 UpdateCheckAllowed (R_ctor ex_co) 0
                          (ex_world False 0)))) 0))
   \<and> filter is_callback_Run (events_since (ex_world False 0)
        (OnPolicyReadyToEvaluate ex_co ex_um 0 7 UpdateCheckAllowed 0 (ex_world False 0)))
     = [Ev_callback_Run 7 kAskMeAgainLater (Suc 0)]
   \<and> filter is_callback_Run (events_since (ex_world False 0)
        (OnPolicyReadyToEvaluate ex_co ex_um 0 7 UpdateCheckAllowed 0 (ex_world False 0)))
     \<noteq> [Ev_callback_Run 7 kFailed (Suc 0)]"
proof -
  have wait: "RunOnValueChangeOrTimeout ex_co
      (ecs ((ex_world False 0)
        \<lparr>trace := [Ev_ResetEvaluation 0, Ev_LOG INFO ''UpdateCheckAllowed: START'',
                   Ev_Invoke Primary UpdateCheckAllowed 0 [] 0,
                   Ev_LOG INFO ''UpdateCheckAllowed: END''],
         ecs := (ecs (ex_world False 0))(0 := (0, False)), state := 0\<rparr>) 0) = (False, (0, False))"
    by (simp add: ex_defs)
  show ?thesis
    unfolding OnPolicyReadyToEvaluate_unschedulable [OF ex_pass_unschedulable wait]
      ex_pass_unschedulable
    by (simp add: events_since_def ex_defs)
qed

theorem OnPolicyReadyToEvaluate_unschedulable_delivers_status_witness:
  "filter is_callback_Run (events_since (ex_world False 0)
        (OnPolicyReadyToEvaluate ex_co ex_um 0 7 UpdateCheckAllowed 0 (ex_world False 0)))
     = [Ev_callback_Run 7 kAskMeAgainLater (Suc 0)]
   \<and> scheduled (OnPolicyReadyToEvaluate ex_co ex_um 0 7 UpdateCheckAllowed 0 (ex_world False 0)) = []"
proof -
  have wait: "RunOnValueChangeOrTimeout ex_co
      (ecs ((ex_world False 0)
        \<lparr>trace := [Ev_ResetEvaluation 0, Ev_LOG INFO ''UpdateCheckAllowed: START'',
                   Ev_Invoke Primary UpdateCheckAllowed 0 [] 0,
                   Ev_LOG INFO ''UpdateCheckAllowed: END''],
         ecs := (ecs (ex_world False 0))(0 := (0, False)), state := 0\<rparr>) 0) = (False, (0, False))"
    by (simp add: ex_defs)
  have "scheduled (ex_world False 0) = []"
    by (simp add: ex_defs)
  with OnPolicyReadyToEvaluate_unschedulable_delivers_status
         [OF ex_pass_unschedulable wait refl, of 7]
  show ?thesis by simp
qed


lemma EvaluatePolicy_invocations:
  assumes pass: "EvaluatePolicy co um ec m result args w = (st, r, w')"
  shows "filter is_Invoke (events_since w w') = [Ev_Invoke Primary m ec [] args]
         \<or> filter is_Invoke (events_since w w')
             = [Ev_Invoke Primary m ec [] args, Ev_Invoke Default m ec [] args]"
proof -
  obtain st1 e1 s1 err1 r1 where
    prim: "operation (policy um) m (ec_at_invocation co (ecs w ec)) (state w) [] result args
             = (st1, e1, s1, err1, r1)"
    by (metis prod_cases5)
  obtain st2 e2 s2 err2 r2 where
    dflt: "operation (default_policy um) m e1 s1 [] r1 args = (st2, e2, s2, err2, r2)"
    by (metis prod_cases5)
  show ?thesis
  proof (cases "st1 = kFailed")
    case True
    from EvaluatePolicy_default_decides [OF prim [unfolded True] dflt] pass
    show ?thesis by (auto simp add: events_since_def)
  next
    case False
    from EvaluatePolicy_primary_decides [OF prim False] pass
    show ?thesis by (auto simp add: events_since_def)
  qed
qed

lemma OnPolicyReadyToEvaluate_cases:
  obtains
    (delivers) st r w1 where
      "EvaluatePolicy co um ec m (R_ctor co) args w = (st, r, w1)"
      "st \<noteq> kAskMeAgainLater"
      "OnPolicyReadyToEvaluate co um ec k m args w =
         w1\<lparr>trace := trace w1 @ [Ev_callback_Run k st r]\<rparr>"
  | (reschedules) r w1 e' where
      "EvaluatePolicy co um ec m (R_ctor co) args w = (kAskMeAgainLater, r, w1)"
      "RunOnValueChangeOrTimeout co (ecs w1 ec) = (True, e')"
      "OnPolicyReadyToEvaluate co um ec k m args w =
         w1\<lparr>trace := trace w1 @ [Ev_RunOnValueChangeOrTimeout ec
                                     (Bind_OnPolicyReadyToEvaluate ec k m args) True],
            ecs := (ecs w1)(ec := e'),
            scheduled := scheduled w1 @ [Bind_OnPolicyReadyToEvaluate ec k m args]\<rparr>"
  | (unschedulable) r w1 e' where
      "EvaluatePolicy co um ec m (R_ctor co) args w = (kAskMeAgainLater, r, w1)"
      "RunOnValueChangeOrTimeout co (ecs w1 ec) = (False, e')"
      "OnPolicyReadyToEvaluate co um ec k m args w =
         w1\<lparr>trace := trace w1 @ [Ev_RunOnValueChangeOrTimeout ec
                                     (Bind_OnPolicyReadyToEvaluate ec k m args) False,
                                   Ev_LOG ERROR (''Failed to schedule a reevaluation of policy ''
                                                  @ PolicyRequestName (policy um) m
                                                  @ ''; this is a bug.''),
                                   Ev_callback_Run k kAskMeAgainLater r],
            ecs := (ecs w1)(ec := e')\<rparr>"
proof -
  obtain st r w1 where pass: "EvaluatePolicy co um ec m (R_ctor co) args w = (st, r, w1)"
    by (metis prod_cases3)
  obtain ok e' where wait: "RunOnValueChangeOrTimeout co (ecs w1 ec) = (ok, e')"
    by (metis surj_pair)
  show thesis
  proof (cases "st = kAskMeAgainLater")
    case False
    from OnPolicyReadyToEvaluate_delivers [OF pass False] show thesis
      using delivers pass False by blast
  next
    case True
    note pass' = pass [unfolded True]
    show thesis
    proof (cases ok)
      case True
      with wait have wait': "RunOnValueChangeOrTimeout co (ecs w1 ec) = (True, e')" by simp
      from OnPolicyReadyToEvaluate_reschedules [OF pass' wait'] show thesis
        using reschedules pass' wait' by blast
    next
      case False
      with wait have wait': "RunOnValueChangeOrTimeout co (ecs w1 ec) = (False, e')" by simp
      from OnPolicyReadyToEvaluate_unschedulable [OF pass' wait'] show thesis
        using unschedulable pass' wait' by blast
    qed
  qed
qed

lemma Closure_Run_reeval:
  "Closure_Run co um convert (Bind_OnPolicyReadyToEvaluate ec k m a) w =
     OnPolicyReadyToEvaluate co um ec k m a w"
  by (simp add: Closure_Run_def)

lemma Closure_Run_eval:
  "Closure_Run co um convert (Bind_eval_callback ec k m b) w =
     OnPolicyReadyToEvaluate co um ec k m (convert b)
       (w\<lparr>trace := trace w @ [Ev_convert ec b (convert b)]\<rparr>)"
  by (simp add: Closure_Run_def emit_def)

lemma pass_events_no_convert:
  "list_all is_pass_event evs \<Longrightarrow> filter is_convert evs = []"
  by (induction evs) (auto elim: is_pass_event.elims)

lemma pass_events_no_RunFromMainLoop:
  "list_all is_pass_event evs \<Longrightarrow> Ev_RunFromMainLoop c \<notin> set evs"
  by (induction evs) auto

lemma OnPolicyReadyToEvaluate_frame:
  assumes ran: "OnPolicyReadyToEvaluate co um ec k m args w = w'"
  shows "\<exists>evs. trace w' = trace w @ evs
               \<and> (\<forall>c'. Ev_RunFromMainLoop c' \<notin> set evs)
               \<and> filter is_convert evs = []
               \<and> (filter is_Invoke evs = [Ev_Invoke Primary m ec [] args]
                  \<or> filter is_Invoke evs = [Ev_Invoke Primary m ec [] args,
                                            Ev_Invoke Default m ec [] args])
               \<and> (scheduled w' = scheduled w
                  \<or> scheduled w' = scheduled w @ [Bind_OnPolicyReadyToEvaluate ec k m args])
               \<and> next_ec w' = next_ec w"
proof (cases rule: OnPolicyReadyToEvaluate_cases
    [where co = co and um = um and ec = ec and m = m and args = args and w = w and k = k])
  case (delivers st r w1)
  from EvaluatePolicy_frame [OF delivers(1)] obtain evs where
    fr: "scheduled w1 = scheduled w" "trace w1 = trace w @ evs" "list_all is_pass_event evs"
        "next_ec w1 = next_ec w"
    by blast
  from EvaluatePolicy_invocations [OF delivers(1)]
  have inv: "filter is_Invoke evs = [Ev_Invoke Primary m ec [] args]
             \<or> filter is_Invoke evs = [Ev_Invoke Primary m ec [] args,
                                       Ev_Invoke Default m ec [] args]"
    by (simp add: events_since_def fr(2))
  from pass_events_no_RunFromMainLoop [OF fr(3)] pass_events_no_convert [OF fr(3)]
    inv ran delivers(3) fr(1,2,4)
  show ?thesis by auto
next
  case (reschedules r w1 e')
  from EvaluatePolicy_frame [OF reschedules(1)] obtain evs where
    fr: "scheduled w1 = scheduled w" "trace w1 = trace w @ evs" "list_all is_pass_event evs"
        "next_ec w1 = next_ec w"
    by blast
  from EvaluatePolicy_invocations [OF reschedules(1)]
  have inv: "filter is_Invoke evs = [Ev_Invoke Primary m ec [] args]
             \<or> filter is_Invoke evs = [Ev_Invoke Primary m ec [] args,
                                       Ev_Invoke Default m ec [] args]"
    by (simp add: events_since_def fr(2))
  from pass_events_no_RunFromMainLoop [OF fr(3)] pass_events_no_convert [OF fr(3)]
    inv ran reschedules(3) fr(1,2,4)
  show ?thesis by auto
next
  case (unschedulable r w1 e')
  from EvaluatePolicy_frame [OF unschedulable(1)] obtain evs where
    fr: "scheduled w1 = scheduled w" "trace w1 = trace w @ evs" "list_all is_pass_event evs"
        "next_ec w1 = next_ec w"
    by blast
  from EvaluatePolicy_invocations [OF unschedulable(1)]
  have inv: "filter is_Invoke evs = [Ev_Invoke Primary m ec [] args]
             \<or> filter is_Invoke evs = [Ev_Invoke Primary m ec [] args,
                                       Ev_Invoke Default m ec [] args]"
    by (simp add: events_since_def fr(2))
  from pass_events_no_RunFromMainLoop [OF fr(3)] pass_events_no_convert [OF fr(3)]
    inv ran unschedulable(3) fr(1,2,4)
  show ?thesis by auto
qed

lemma AsyncPolicyRequest_eq:
  "AsyncPolicyRequest co um k m args w =
     w\<lparr>trace := trace w
          @ [Ev_new_EvaluationContext (next_ec w) (clock um) (evaluation_timeout um)
               (Some (expiration_timeout um)),
             Ev_RunFromMainLoop (Bind_eval_callback (next_ec w) k m args)],
       ecs := (ecs w)(next_ec w := EvaluationContext_ctor co (clock um) (evaluation_timeout um)
                                     (Some (expiration_timeout um))),
       next_ec := Suc (next_ec w),
       scheduled := scheduled w @ [Bind_eval_callback (next_ec w) k m args]\<rparr>"
  by (simp add: AsyncPolicyRequest_def new_EvaluationContext_def RunFromMainLoop_def emit_def
      Let_def)

subsection \<open>Entry of an asynchronous request\<close>

text \<open>
  C7. \<open>AsyncPolicyRequest\<close> never invokes the policy method. All it does is construct the
  EvaluationContext, with the evaluation timeout and the expiration timeout, and post the
  first evaluation closure, which binds the caller's arguments, with \<open>RunFromMainLoop\<close>:
  these are its only two events, no policy invocation is among them, and the State is
  untouched. The first pass runs when the event loop fires that closure, and then starts
  by invoking the primary policy's method on the new context with the converted arguments.
\<close>

theorem AsyncPolicyRequest_only_posts:
  "events_since w (AsyncPolicyRequest co um k m args w)
     = [Ev_new_EvaluationContext (next_ec w) (clock um) (evaluation_timeout um)
          (Some (expiration_timeout um)),
        Ev_RunFromMainLoop (Bind_eval_callback (next_ec w) k m args)]
   \<and> filter is_Invoke (events_since w (AsyncPolicyRequest co um k m args w)) = []
   \<and> state (AsyncPolicyRequest co um k m args w) = state w
   \<and> ecs (AsyncPolicyRequest co um k m args w) (next_ec w)
       = EvaluationContext_ctor co (clock um) (evaluation_timeout um)
           (Some (expiration_timeout um))
   \<and> scheduled (AsyncPolicyRequest co um k m args w)
       = scheduled w @ [Bind_eval_callback (next_ec w) k m args]
   \<and> (\<exists>w''. loop_step co um convert (Fire (Bind_eval_callback (next_ec w) k m args))
               (AsyncPolicyRequest co um k m args w) = Inr w''
            \<and> hd (filter is_Invoke (events_since (AsyncPolicyRequest co um k m args w) w''))
                = Ev_Invoke Primary m (next_ec w) [] (convert args))"
proof -
  let ?c = "Bind_eval_callback (next_ec w) k m args"
  let ?w' = "AsyncPolicyRequest co um k m args w"
  let ?w0 = "?w'\<lparr>scheduled := remove1 ?c (scheduled ?w')\<rparr>"
  let ?w1 = "?w0\<lparr>trace := trace ?w0 @ [Ev_convert (next_ec w) args (convert args)]\<rparr>"
  let ?w'' = "OnPolicyReadyToEvaluate co um (next_ec w) k m (convert args) ?w1"
  have step: "loop_step co um convert (Fire ?c) ?w' = Inr ?w''"
    by (simp add: loop_step_def AsyncPolicyRequest_eq Closure_Run_eval)
  from OnPolicyReadyToEvaluate_frame [OF refl, where co = co and um = um and ec = "next_ec w"
      and k = k and m = m and args = "convert args" and w = ?w1]
  obtain evs where
    fr: "trace ?w'' = trace ?w1 @ evs"
        "filter is_Invoke evs = [Ev_Invoke Primary m (next_ec w) [] (convert args)]
         \<or> filter is_Invoke evs = [Ev_Invoke Primary m (next_ec w) [] (convert args),
                                   Ev_Invoke Default m (next_ec w) [] (convert args)]"
    by blast
  have "events_since ?w' ?w'' = Ev_convert (next_ec w) args (convert args) # evs"
    using fr(1) by (simp add: events_since_def)
  with fr(2) have first: "hd (filter is_Invoke (events_since ?w' ?w''))
          = Ev_Invoke Primary m (next_ec w) [] (convert args)"
    by auto
  have a: "events_since w ?w'
     = [Ev_new_EvaluationContext (next_ec w) (clock um) (evaluation_timeout um)
          (Some (expiration_timeout um)), Ev_RunFromMainLoop ?c]"
    by (simp add: AsyncPolicyRequest_eq events_since_def)
  show ?thesis
    using step first by (simp add: a) (simp add: AsyncPolicyRequest_eq)
qed



subsection \<open>Synchronous requests\<close>

lemma new_EvaluationContext_eq:
  "new_EvaluationContext co clk t1 t2 w =
     (next_ec w,
      w\<lparr>trace := trace w @ [Ev_new_EvaluationContext (next_ec w) clk t1 t2],
        ecs := (ecs w)(next_ec w := EvaluationContext_ctor co clk t1 t2),
        next_ec := Suc (next_ec w)\<rparr>)"
  by (simp add: new_EvaluationContext_def emit_def)

lemma PolicyRequest_eq:
  assumes pass: "EvaluatePolicy co um (next_ec w) m result (convert args)
                   (snd (new_EvaluationContext co (clock um) (evaluation_timeout um) None w))
                   = (ret, r, w2)"
  shows "PolicyRequest co um convert m result args w =
           (if DCHECK_IS_ON co \<and> ret = kAskMeAgainLater then Inl (DCHECK_failed, w2)
            else Inr (ret, r,
                      if ret = kAskMeAgainLater
                      then w2\<lparr>trace := trace w2
                             @ [Ev_LOG WARNING
                                  ''Sync request used with an async policy; this is a bug'']\<rparr>
                      else w2))"
  using pass
  by (auto simp add: PolicyRequest_def new_EvaluationContext_eq LOG_def emit_def)

lemma pass_events_no_RunOnValueChangeOrTimeout:
  "list_all is_pass_event evs \<Longrightarrow> filter is_RunOnValueChangeOrTimeout evs = []"
  by (induction evs) (auto elim: is_pass_event.elims)

lemma PolicyRequest_primary_blocks:
  assumes prim: "operation (policy um) m
                   (ec_at_invocation co
                      (EvaluationContext_ctor co (clock um) (evaluation_timeout um) None))
                   (state w) [] result (convert args)
                   = (kAskMeAgainLater, e1, s1, err1, r1)"
  shows "\<exists>w2. EvaluatePolicy co um (next_ec w) m result (convert args)
                (snd (new_EvaluationContext co (clock um) (evaluation_timeout um) None w))
                = (kAskMeAgainLater, r1, w2)"
proof -
  let ?w1 = "snd (new_EvaluationContext co (clock um) (evaluation_timeout um) None w)"
  have "operation (policy um) m (ec_at_invocation co (ecs ?w1 (next_ec w))) (state ?w1) []
          result (convert args) = (kAskMeAgainLater, e1, s1, err1, r1)"
    using prim by (simp add: new_EvaluationContext_eq)
  from EvaluatePolicy_primary_decides [OF this] show ?thesis by simp
qed

text \<open>
  C4, as the code has it. A synchronous request constructs one EvaluationContext, with the
  evaluation timeout only, and performs one evaluation pass on it: after the construction
  the request's events are those of a single pass, \<open>RunOnValueChangeOrTimeout\<close> is never
  called and nothing is handed to the event loop. Where \<open>DCHECK\<close> is compiled out the
  status of the pass is returned unchanged, AskMeAgainLater included; where it is compiled
  in, a pass that yields AskMeAgainLater fails the assertion on line 116 and no status is
  returned. The counterexample is the claim as stated, in a build with \<open>DCHECK\<close>.
\<close>

theorem PolicyRequest_single_pass:
  assumes pass: "EvaluatePolicy co um (next_ec w) m result (convert args)
                   (snd (new_EvaluationContext co (clock um) (evaluation_timeout um) None w))
                   = (ret, r, w2)"
      and req: "PolicyRequest co um convert m result args w = x"
  shows "(\<exists>evs. events_since w (PolicyRequest_world x)
                   = Ev_new_EvaluationContext (next_ec w) (clock um) (evaluation_timeout um) None
                     # evs
                 \<and> list_all is_pass_event evs)
         \<and> ecs (snd (new_EvaluationContext co (clock um) (evaluation_timeout um) None w))
               (next_ec w)
             = EvaluationContext_ctor co (clock um) (evaluation_timeout um) None
         \<and> (filter is_Invoke (events_since w (PolicyRequest_world x))
               = [Ev_Invoke Primary m (next_ec w) [] (convert args)]
            \<or> filter is_Invoke (events_since w (PolicyRequest_world x))
               = [Ev_Invoke Primary m (next_ec w) [] (convert args),
                  Ev_Invoke Default m (next_ec w) [] (convert args)])
         \<and> filter is_RunOnValueChangeOrTimeout (events_since w (PolicyRequest_world x)) = []
         \<and> scheduled (PolicyRequest_world x) = scheduled w
         \<and> (\<not> DCHECK_IS_ON co \<longrightarrow> (\<exists>w'. x = Inr (ret, r, w')))
         \<and> (ret \<noteq> kAskMeAgainLater \<longrightarrow> x = Inr (ret, r, w2))
         \<and> (DCHECK_IS_ON co \<and> ret = kAskMeAgainLater \<longrightarrow> x = Inl (DCHECK_failed, w2))"
proof -
  let ?w1 = "snd (new_EvaluationContext co (clock um) (evaluation_timeout um) None w)"
  let ?new = "Ev_new_EvaluationContext (next_ec w) (clock um) (evaluation_timeout um) None"
  have w1: "trace ?w1 = trace w @ [?new]" "scheduled ?w1 = scheduled w"
    by (simp_all add: new_EvaluationContext_eq)
  from EvaluatePolicy_frame [OF pass] obtain evs where
    fr: "scheduled w2 = scheduled ?w1" "trace w2 = trace ?w1 @ evs" "list_all is_pass_event evs"
    by blast
  from EvaluatePolicy_invocations [OF pass]
  have inv: "filter is_Invoke evs = [Ev_Invoke Primary m (next_ec w) [] (convert args)]
             \<or> filter is_Invoke evs = [Ev_Invoke Primary m (next_ec w) [] (convert args),
                                       Ev_Invoke Default m (next_ec w) [] (convert args)]"
    by (simp add: events_since_def fr(2))
  have no: "filter is_RunOnValueChangeOrTimeout evs = []"
    by (rule pass_events_no_RunOnValueChangeOrTimeout [OF fr(3)])
  have x: "x = (if DCHECK_IS_ON co \<and> ret = kAskMeAgainLater then Inl (DCHECK_failed, w2)
            else Inr (ret, r,
                      if ret = kAskMeAgainLater
                      then w2\<lparr>trace := trace w2
                             @ [Ev_LOG WARNING
                                  ''Sync request used with an async policy; this is a bug'']\<rparr>
                      else w2))"
    using PolicyRequest_eq [where convert = convert and args = args, OF pass] req by simp
  let ?tl = "if \<not> DCHECK_IS_ON co \<and> ret = kAskMeAgainLater
      then [Ev_LOG WARNING ''Sync request used with an async policy; this is a bug'']
      else []"
  have tr: "trace (PolicyRequest_world x) = trace w @ ?new # evs @ ?tl"
    and sc: "scheduled (PolicyRequest_world x) = scheduled w"
    by (auto simp add: x PolicyRequest_world_def fr w1)
  have tl: "list_all is_pass_event ?tl" "filter is_Invoke ?tl = []"
    "filter is_RunOnValueChangeOrTimeout ?tl = []"
    by simp_all
  have ev: "events_since w (PolicyRequest_world x) = ?new # evs @ ?tl"
    by (simp add: events_since_def tr)
  have a: "\<exists>evs. events_since w (PolicyRequest_world x) = ?new # evs \<and> list_all is_pass_event evs"
    using ev fr(3) tl(1) by simp
  have b: "filter is_Invoke (events_since w (PolicyRequest_world x))
               = [Ev_Invoke Primary m (next_ec w) [] (convert args)]
            \<or> filter is_Invoke (events_since w (PolicyRequest_world x))
               = [Ev_Invoke Primary m (next_ec w) [] (convert args),
                  Ev_Invoke Default m (next_ec w) [] (convert args)]"
    using inv by (simp add: ev tl(2))
  have c: "filter is_RunOnValueChangeOrTimeout (events_since w (PolicyRequest_world x)) = []"
    by (simp add: ev tl(3) no)
  have d: "ecs ?w1 (next_ec w) = EvaluationContext_ctor co (clock um) (evaluation_timeout um) None"
    by (simp add: new_EvaluationContext_eq)
  have e: "(\<not> DCHECK_IS_ON co \<longrightarrow> (\<exists>w'. x = Inr (ret, r, w')))
         \<and> (ret \<noteq> kAskMeAgainLater \<longrightarrow> x = Inr (ret, r, w2))
         \<and> (DCHECK_IS_ON co \<and> ret = kAskMeAgainLater \<longrightarrow> x = Inl (DCHECK_failed, w2))"
    by (simp add: x)
  from a b c d e sc show ?thesis by blast
qed


theorem PolicyRequest_single_pass_witness:
  "map_sum fst fst (PolicyRequest ex_co ex_um of_bool UpdateCheckAllowed 0 True
                      (ex_world False 0)) = Inr kAskMeAgainLater
   \<and> filter is_RunOnValueChangeOrTimeout
        (events_since (ex_world False 0)
           (PolicyRequest_world (PolicyRequest ex_co ex_um of_bool UpdateCheckAllowed 0 True
                                   (ex_world False 0)))) = []
   \<and> hd (events_since (ex_world False 0)
           (PolicyRequest_world (PolicyRequest ex_co ex_um of_bool UpdateCheckAllowed 0 True
                                   (ex_world False 0))))
      = Ev_new_EvaluationContext 0 0 5 None"
proof -
  have prim: "operation (policy ex_um) UpdateCheckAllowed
                   (ec_at_invocation ex_co
                      (EvaluationContext_ctor ex_co (clock ex_um) (evaluation_timeout ex_um) None))
                   (state (ex_world False 0)) [] 0 (of_bool True)
                   = (kAskMeAgainLater, (Suc 0, False), 0, ''no decision'', Suc 0)"
    by (simp add: ex_defs)
  from PolicyRequest_primary_blocks [where convert = of_bool and args = True, OF prim]
  obtain w2 where
    pass: "EvaluatePolicy ex_co ex_um (next_ec (ex_world False 0)) UpdateCheckAllowed 0
             (of_bool True)
             (snd (new_EvaluationContext ex_co (clock ex_um) (evaluation_timeout ex_um) None
                     (ex_world False 0)))
             = (kAskMeAgainLater, Suc 0, w2)"
    by blast
  have off: "\<not> DCHECK_IS_ON ex_co"
    and par: "next_ec (ex_world False 0) = 0" "clock ex_um = 0" "evaluation_timeout ex_um = 5"
    by (simp_all add: ex_defs)
  from PolicyRequest_single_pass [where convert = of_bool and args = True, OF pass refl] off
  show ?thesis
    by (auto simp add: par)
qed

theorem PolicyRequest_status_not_returned_counterexample:
  "fst (EvaluatePolicy ex_co_debug ex_um (next_ec (ex_world False 0)) UpdateCheckAllowed 0
          (of_bool True)
          (snd (new_EvaluationContext ex_co_debug (clock ex_um) (evaluation_timeout ex_um) None
                  (ex_world False 0))))
     = kAskMeAgainLater
   \<and> map_sum fst fst (PolicyRequest ex_co_debug ex_um of_bool UpdateCheckAllowed 0 True
                      (ex_world False 0)) = Inl DCHECK_failed"
proof -
  have prim': "operation (policy ex_um) UpdateCheckAllowed
                   (ec_at_invocation ex_co_debug
                      (EvaluationContext_ctor ex_co_debug (clock ex_um) (evaluation_timeout ex_um)
                         None))
                   (state (ex_world False 0)) [] 0 (of_bool True)
                   = (kAskMeAgainLater, (Suc 0, False), 0, ''no decision'', Suc 0)"
    by (simp add: ex_defs)
  from PolicyRequest_primary_blocks [where convert = of_bool and args = True, OF prim']
  obtain w2 where
    pass: "EvaluatePolicy ex_co_debug ex_um (next_ec (ex_world False 0)) UpdateCheckAllowed 0
             (of_bool True)
             (snd (new_EvaluationContext ex_co_debug (clock ex_um) (evaluation_timeout ex_um) None
                     (ex_world False 0)))
             = (kAskMeAgainLater, Suc 0, w2)"
    by blast
  have on: "DCHECK_IS_ON ex_co_debug"
    by (simp add: ex_defs)
  have a: "fst (EvaluatePolicy ex_co_debug ex_um (next_ec (ex_world False 0)) UpdateCheckAllowed 0
          (of_bool True)
          (snd (new_EvaluationContext ex_co_debug (clock ex_um) (evaluation_timeout ex_um) None
                  (ex_world False 0))))
     = kAskMeAgainLater"
    unfolding pass by simp
  have b: "map_sum fst fst (PolicyRequest ex_co_debug ex_um of_bool UpdateCheckAllowed 0 True
                      (ex_world False 0)) = Inl DCHECK_failed"
    unfolding PolicyRequest_eq [where convert = of_bool and args = True, OF pass]
    using on by simp
  from a b show ?thesis by blast
qed

text \<open>
  C10. The assertion on line 116 is not guaranteed by the synchronous path: whenever the
  primary policy returns AskMeAgainLater, a build with \<open>DCHECK\<close> fails the assertion and
  returns no status, and a build without it returns AskMeAgainLater after the warning line.
\<close>

theorem PolicyRequest_DCHECK_not_guaranteed:
  assumes prim: "operation (policy um) m
                   (ec_at_invocation co
                      (EvaluationContext_ctor co (clock um) (evaluation_timeout um) None))
                   (state w) [] result (convert args)
                   = (kAskMeAgainLater, e1, s1, err1, r1)"
  shows "(DCHECK_IS_ON co \<longrightarrow>
            map_sum fst fst (PolicyRequest co um convert m result args w) = Inl DCHECK_failed)
         \<and> (\<not> DCHECK_IS_ON co \<longrightarrow>
            (\<exists>w'. PolicyRequest co um convert m result args w = Inr (kAskMeAgainLater, r1, w')
                 \<and> last (trace w')
                     = Ev_LOG WARNING ''Sync request used with an async policy; this is a bug''))"
proof -
  from PolicyRequest_primary_blocks [where convert = convert and args = args, OF prim]
  obtain w2 where
    pass: "EvaluatePolicy co um (next_ec w) m result (convert args)
             (snd (new_EvaluationContext co (clock um) (evaluation_timeout um) None w))
             = (kAskMeAgainLater, r1, w2)"
    by blast
  show ?thesis
    by (simp add: PolicyRequest_eq [where convert = convert and args = args, OF pass])
qed

theorem PolicyRequest_DCHECK_not_guaranteed_witness:
  "map_sum fst fst (PolicyRequest ex_co_debug ex_um of_bool UpdateCheckAllowed 0 True
                      (ex_world False 0)) = Inl DCHECK_failed
   \<and> map_sum fst fst (PolicyRequest ex_co ex_um of_bool UpdateCheckAllowed 0 True
                      (ex_world False 0)) = Inr kAskMeAgainLater"
proof -
  have prim: "operation (policy ex_um) UpdateCheckAllowed
                   (ec_at_invocation ex_co
                      (EvaluationContext_ctor ex_co (clock ex_um) (evaluation_timeout ex_um) None))
                   (state (ex_world False 0)) [] 0 (of_bool True)
                   = (kAskMeAgainLater, (Suc 0, False), 0, ''no decision'', Suc 0)"
    by (simp add: ex_defs)
  have prim': "operation (policy ex_um) UpdateCheckAllowed
                   (ec_at_invocation ex_co_debug
                      (EvaluationContext_ctor ex_co_debug (clock ex_um) (evaluation_timeout ex_um)
                         None))
                   (state (ex_world False 0)) [] 0 (of_bool True)
                   = (kAskMeAgainLater, (Suc 0, False), 0, ''no decision'', Suc 0)"
    by (simp add: ex_defs)
  have on: "DCHECK_IS_ON ex_co_debug" and off: "\<not> DCHECK_IS_ON ex_co"
    by (simp_all add: ex_defs)
  from PolicyRequest_DCHECK_not_guaranteed [where convert = of_bool and args = True, OF prim'] on
  have a: "map_sum fst fst (PolicyRequest ex_co_debug ex_um of_bool UpdateCheckAllowed 0 True
                      (ex_world False 0)) = Inl DCHECK_failed"
    by blast
  from PolicyRequest_DCHECK_not_guaranteed [where convert = of_bool and args = True, OF prim] off
  obtain w' where "PolicyRequest ex_co ex_um of_bool UpdateCheckAllowed 0 True (ex_world False 0)
                     = Inr (kAskMeAgainLater, Suc 0, w')"
    by blast
  then have b: "map_sum fst fst (PolicyRequest ex_co ex_um of_bool UpdateCheckAllowed 0 True
                      (ex_world False 0)) = Inr kAskMeAgainLater"
    by simp
  from a b show ?thesis by blast
qed




subsection \<open>The life of an asynchronous request\<close>

lemmas all_defs = loop_step_def OnPolicyReadyToEvaluate_def EvaluatePolicy_def
  EvaluatePolicy_begin_def EvaluatePolicy_fallback_def invoke_def policy_of_def prim_defs
  AsyncPolicyRequest_def PolicyRequest_def Closure_Run_def Let_def ex_defs last_world_def

lemma delivered_append [simp]: "delivered k (xs @ ys) = delivered k xs + delivered k ys"
  by (simp add: delivered_def)

lemma requested_append [simp]: "requested k (xs @ ys) = requested k xs + requested k ys"
  by (simp add: requested_def)

lemma released_append [simp]: "released k (xs @ ys) = released k xs + released k ys"
  by (simp add: released_def)

lemma pending_append [simp]: "pending k (xs @ ys) = pending k xs + pending k ys"
  by (simp add: pending_def)

lemma counts_Nil [simp]:
  "delivered k [] = 0" "requested k [] = 0" "released k [] = 0" "pending k [] = 0"
  by (simp_all add: delivered_def requested_def released_def pending_def)

lemma counts_Cons [simp]:
  "delivered k (ev # evs) = (if delivers k ev then 1 else 0) + delivered k evs"
  "requested k (ev # evs) = (if posts k ev then 1 else 0) + requested k evs"
  "released k (ev # evs) = (if releases k ev then 1 else 0) + released k evs"
  "pending k (c # cs) = (if bound_callback c = k then 1 else 0) + pending k cs"
  by (simp_all add: delivered_def requested_def released_def pending_def)

lemma pass_events_counts:
  assumes "list_all is_pass_event evs"
  shows "delivered k evs = 0 \<and> requested k evs = 0 \<and> released k evs = 0"
  using assms by (induction evs) (auto elim: is_pass_event.elims)

lemma pending_remove1:
  assumes "c \<in> set cs"
  shows "pending k (remove1 c cs) + (if bound_callback c = k then 1 else 0) = pending k cs"
  using assms by (induction cs) auto

lemma OnPolicyReadyToEvaluate_accounting:
  assumes ran: "OnPolicyReadyToEvaluate co um ec k' m args w = w'"
  shows "delivered k (trace w') + pending k (scheduled w')
           = delivered k (trace w) + pending k (scheduled w) + (if k' = k then 1 else 0)
         \<and> released k (trace w') = released k (trace w)
         \<and> requested k (trace w') = requested k (trace w)"
proof (cases rule: OnPolicyReadyToEvaluate_cases
    [where co = co and um = um and ec = ec and m = m and args = args and w = w and k = k'])
  case (delivers st r w1)
  from EvaluatePolicy_frame [OF delivers(1)] obtain evs where
    fr: "scheduled w1 = scheduled w" "trace w1 = trace w @ evs" "list_all is_pass_event evs"
    by blast
  from pass_events_counts [OF fr(3), of k] ran delivers(3) fr(1,2) show ?thesis
    by auto
next
  case (reschedules r w1 e')
  from EvaluatePolicy_frame [OF reschedules(1)] obtain evs where
    fr: "scheduled w1 = scheduled w" "trace w1 = trace w @ evs" "list_all is_pass_event evs"
    by blast
  from pass_events_counts [OF fr(3), of k] ran reschedules(3) fr(1,2) show ?thesis
    by auto
next
  case (unschedulable r w1 e')
  from EvaluatePolicy_frame [OF unschedulable(1)] obtain evs where
    fr: "scheduled w1 = scheduled w" "trace w1 = trace w @ evs" "list_all is_pass_event evs"
    by blast
  from pass_events_counts [OF fr(3), of k] ran unschedulable(3) fr(1,2) show ?thesis
    by auto
qed

lemma Closure_Run_accounting:
  assumes ran: "Closure_Run co um convert c w = w'"
  shows "delivered k (trace w') + pending k (scheduled w')
           = delivered k (trace w) + pending k (scheduled w)
             + (if bound_callback c = k then 1 else 0)
         \<and> released k (trace w') = released k (trace w)
         \<and> requested k (trace w') = requested k (trace w)"
proof (cases c)
  case (Bind_OnPolicyReadyToEvaluate ec k' m a)
  from OnPolicyReadyToEvaluate_accounting [where k = k, OF ran [unfolded
        Bind_OnPolicyReadyToEvaluate Closure_Run_reeval]]
  show ?thesis by (simp add: Bind_OnPolicyReadyToEvaluate)
next
  case (Bind_eval_callback ec k' m b)
  from OnPolicyReadyToEvaluate_accounting [where k = k, OF ran [unfolded
        Bind_eval_callback Closure_Run_eval]]
  show ?thesis by (simp add: Bind_eval_callback)
qed

lemma PolicyRequest_frame:
  "\<exists>evs. trace (PolicyRequest_world (PolicyRequest co um convert m result args w))
            = trace w @ evs
         \<and> delivered k evs = 0 \<and> requested k evs = 0 \<and> released k evs = 0
         \<and> scheduled (PolicyRequest_world (PolicyRequest co um convert m result args w))
            = scheduled w"
proof -
  let ?w1 = "snd (new_EvaluationContext co (clock um) (evaluation_timeout um) None w)"
  obtain ret r w2 where
    pass: "EvaluatePolicy co um (next_ec w) m result (convert args) ?w1 = (ret, r, w2)"
    by (metis prod_cases3)
  from EvaluatePolicy_frame [OF pass] obtain evs where
    fr: "scheduled w2 = scheduled ?w1" "trace w2 = trace ?w1 @ evs" "list_all is_pass_event evs"
    by blast
  from pass_events_counts [OF fr(3), of k] fr(1,2) show ?thesis
    unfolding PolicyRequest_eq [where convert = convert and args = args, OF pass]
    by (auto simp add: PolicyRequest_world_def new_EvaluationContext_eq)
qed

lemma loop_step_accounted:
  assumes "accounted k w"
  shows "accounted k (last_world (loop_step co um convert act w))"
proof (cases act)
  case (Fire c)
  show ?thesis
  proof (cases "c \<in> set (scheduled w)")
    case True
    let ?w0 = "w\<lparr>scheduled := remove1 c (scheduled w)\<rparr>"
    from Closure_Run_accounting [where co = co and um = um and convert = convert and c = c
        and w = ?w0 and k = k, OF refl]
      pending_remove1 [OF True, of k] assms
    show ?thesis
      by (simp add: Fire loop_step_def last_world_def True accounted_def)
  next
    case False
    with assms show ?thesis by (simp add: Fire loop_step_def last_world_def)
  qed
next
  case (Release c)
  show ?thesis
  proof (cases "c \<in> set (scheduled w)")
    case True
    from pending_remove1 [OF True, of k] assms show ?thesis
      by (simp add: Release loop_step_def last_world_def True accounted_def emit_def)
  next
    case False
    with assms show ?thesis by (simp add: Release loop_step_def last_world_def)
  qed
next
  case (Environment es s)
  with assms show ?thesis by (simp add: loop_step_def last_world_def accounted_def)
next
  case (Async k' m args)
  with assms show ?thesis
    by (simp add: loop_step_def last_world_def accounted_def AsyncPolicyRequest_eq)
next
  case (Sync m result args)
  have "last_world (loop_step co um convert act w)
          = PolicyRequest_world (PolicyRequest co um convert m result args w)"
    by (simp add: Sync loop_step_def last_world_def PolicyRequest_world_def
        split: sum.splits prod.splits)
  with PolicyRequest_frame [where co = co and um = um and convert = convert and m = m
      and result = result and args = args and w = w and k = k] assms show ?thesis
    by (auto simp add: accounted_def)
qed

lemma run_loop_accounted:
  assumes "accounted k w"
  shows "accounted k (last_world (run_loop co um convert acts w))"
  using assms
proof (induction acts arbitrary: w)
  case Nil
  then show ?case by (simp add: last_world_def)
next
  case (Cons act acts)
  show ?case
  proof (cases "loop_step co um convert act w")
    case (Inl x)
    with loop_step_accounted [OF Cons.prems, where co = co and um = um and convert = convert
      and act = act] show ?thesis
      by simp
  next
    case (Inr w')
    with loop_step_accounted [OF Cons.prems, where co = co and um = um and convert = convert
      and act = act]
    have "accounted k w'" by (simp add: last_world_def)
    from Cons.IH [OF this] Inr show ?thesis by simp
  qed
qed

lemma initial_world_accounted: "accounted k (initial_world es s)"
  by (simp add: accounted_def initial_world_def)

lemma pass_events_no_callback_Run:
  "list_all is_pass_event evs \<Longrightarrow> filter is_callback_Run evs = []"
  by (induction evs) (auto elim: is_pass_event.elims)

text \<open>
  C6, as the code has it. Each pass of an asynchronous request does exactly one of two
  things: it runs the delivery callback exactly once and registers nothing (when the
  status is not AskMeAgainLater, or when rescheduling fails), or it registers exactly one
  reevaluation closure and runs no callback. Consequently, in every world the event loop
  can reach from process start, and for every delivery callback, the times the callback
  has run, the closures bound to it that the loop still holds and the closures bound to it
  that were released add up to the requests posted with it: a callback never runs more
  often than requests were posted with it, and a request that is neither held nor released
  has had its callback run. The callback need not ever run: a request whose passes keep
  yielding AskMeAgainLater with something to wait on stays held. The counterexample is
  such a request: three passes, no delivery, no release, and the world back where it was
  after the first pass.
\<close>

theorem OnPolicyReadyToEvaluate_delivers_or_reschedules:
  fixes co :: "('e, 'r) collaborators"
    and um :: "('e, 's, 'm, 'r, 'a) UpdateManager"
    and convert :: "'b \<Rightarrow> 'a"
    and w :: "('e, 's, 'm, 'r, 'a, 'b, 'k) world"
  assumes pass: "EvaluatePolicy co um ec m (R_ctor co) args w = (st, r, w1)"
      and wait: "RunOnValueChangeOrTimeout co (ecs w1 ec) = (ok, e')"
      and ran: "OnPolicyReadyToEvaluate co um ec k m args w = w'"
  shows "(if st \<noteq> kAskMeAgainLater \<or> \<not> ok
          then filter is_callback_Run (events_since w w') = [Ev_callback_Run k st r]
               \<and> scheduled w' = scheduled w
          else filter is_callback_Run (events_since w w') = []
               \<and> scheduled w' = scheduled w @ [Bind_OnPolicyReadyToEvaluate ec k m args]
               \<and> filter is_RunOnValueChangeOrTimeout (events_since w w')
                   = [Ev_RunOnValueChangeOrTimeout ec
                        (Bind_OnPolicyReadyToEvaluate ec k m args) True])
         \<and> (\<forall>(acts :: ('e, 's, 'm, 'r, 'a, 'b, 'k) loop_action list) es s k'.
               delivered k' (trace (last_world (run_loop co um convert acts (initial_world es s))))
               + pending k' (scheduled (last_world
                                          (run_loop co um convert acts (initial_world es s))))
               + released k' (trace (last_world
                                       (run_loop co um convert acts (initial_world es s))))
               = requested k' (trace (last_world
                                        (run_loop co um convert acts (initial_world es s)))))"
proof -
  from EvaluatePolicy_frame [OF pass] obtain evs where
    fr: "scheduled w1 = scheduled w" "trace w1 = trace w @ evs" "list_all is_pass_event evs"
    by blast
  note no = pass_events_no_callback_Run [OF fr(3)]
    pass_events_no_RunOnValueChangeOrTimeout [OF fr(3)]
  have one: "if st \<noteq> kAskMeAgainLater \<or> \<not> ok
          then filter is_callback_Run (events_since w w') = [Ev_callback_Run k st r]
               \<and> scheduled w' = scheduled w
          else filter is_callback_Run (events_since w w') = []
               \<and> scheduled w' = scheduled w @ [Bind_OnPolicyReadyToEvaluate ec k m args]
               \<and> filter is_RunOnValueChangeOrTimeout (events_since w w')
                   = [Ev_RunOnValueChangeOrTimeout ec
                        (Bind_OnPolicyReadyToEvaluate ec k m args) True]"
  proof (cases "st = kAskMeAgainLater")
    case False
    from OnPolicyReadyToEvaluate_delivers [OF pass False, of k] ran fr no False
    show ?thesis by (auto simp add: events_since_def)
  next
    case True
    note pass' = pass [unfolded True]
    show ?thesis
    proof (cases ok)
      case True
      with wait have wait': "RunOnValueChangeOrTimeout co (ecs w1 ec) = (True, e')" by simp
      from OnPolicyReadyToEvaluate_reschedules [OF pass' wait', of k] ran fr no True
        \<open>st = kAskMeAgainLater\<close>
      show ?thesis by (auto simp add: events_since_def)
    next
      case False
      with wait have wait': "RunOnValueChangeOrTimeout co (ecs w1 ec) = (False, e')" by simp
      from OnPolicyReadyToEvaluate_unschedulable [OF pass' wait', of k] ran fr no False
        \<open>st = kAskMeAgainLater\<close>
      show ?thesis by (auto simp add: events_since_def)
    qed
  qed
  have life: "\<forall>(acts :: ('e, 's, 'm, 'r, 'a, 'b, 'k) loop_action list) es s k'.
               delivered k' (trace (last_world (run_loop co um convert acts (initial_world es s))))
               + pending k' (scheduled (last_world
                                          (run_loop co um convert acts (initial_world es s))))
               + released k' (trace (last_world
                                       (run_loop co um convert acts (initial_world es s))))
               = requested k' (trace (last_world
                                        (run_loop co um convert acts (initial_world es s))))"
  proof (intro allI)
    fix acts :: "('e, 's, 'm, 'r, 'a, 'b, 'k) loop_action list"
    fix es :: "ec_ptr \<Rightarrow> 'e" and s :: 's and k' :: 'k
    have "accounted k' (last_world (run_loop co um convert acts (initial_world es s)))"
      by (rule run_loop_accounted [OF initial_world_accounted])
    then show "delivered k' (trace (last_world (run_loop co um convert acts (initial_world es s))))
               + pending k' (scheduled (last_world
                                          (run_loop co um convert acts (initial_world es s))))
               + released k' (trace (last_world
                                       (run_loop co um convert acts (initial_world es s))))
               = requested k' (trace (last_world
                                        (run_loop co um convert acts (initial_world es s))))"
      by (simp only: accounted_def)
  qed
  from one life show ?thesis by (rule conjI)
qed


theorem OnPolicyReadyToEvaluate_delivers_or_reschedules_witness:
  "scheduled (OnPolicyReadyToEvaluate ex_co ex_um 0 7 UpdateCheckAllowed (of_bool True)
                (ex_world False 0)) = [ex_closure]
   \<and> filter is_callback_Run
        (events_since (ex_world False 0)
           (OnPolicyReadyToEvaluate ex_co ex_um 0 7 UpdateCheckAllowed (of_bool True)
              (ex_world False 0))) = []
   \<and> delivered 7 (trace (last_world (run_loop ex_co ex_um of_bool ex_script (initial_world (\<lambda>a. (0, False)) 0))))
     + pending 7 (scheduled (last_world (run_loop ex_co ex_um of_bool ex_script (initial_world (\<lambda>a. (0, False)) 0))))
     + released 7 (trace (last_world (run_loop ex_co ex_um of_bool ex_script (initial_world (\<lambda>a. (0, False)) 0))))
     = requested 7 (trace (last_world (run_loop ex_co ex_um of_bool ex_script (initial_world (\<lambda>a. (0, False)) 0))))
   \<and> filter is_callback_Run
        (trace (last_world (run_loop ex_co ex_um of_bool ex_script (initial_world (\<lambda>a. (0, False)) 0))))
      = [Ev_callback_Run 7 kSucceeded (Suc 0)]"
proof -
  obtain st r w1 where
    pass: "EvaluatePolicy ex_co ex_um 0 UpdateCheckAllowed (R_ctor ex_co) (of_bool True)
             (ex_world False 0) = (st, r, w1)"
    by (metis prod_cases3)
  then have st: "st = kAskMeAgainLater" and e: "ecs w1 0 = (Suc 0, False)"
    by (auto simp add: all_defs)
  have wait: "RunOnValueChangeOrTimeout ex_co (ecs w1 0) = (True, (Suc 0, False))"
    by (simp add: e ex_defs)
  have sch: "scheduled (ex_world False 0) = []"
    by (simp add: ex_defs)
  have last: "filter is_callback_Run
        (trace (last_world (run_loop ex_co ex_um of_bool ex_script (initial_world (\<lambda>a. (0, False)) 0))))
      = [Ev_callback_Run 7 kSucceeded (Suc 0)]"
    by (simp add: all_defs ex_closure_def ex_eval_closure_def ex_script_def)
  from OnPolicyReadyToEvaluate_delivers_or_reschedules
         [where convert = of_bool and k = 7, OF pass wait refl] st sch last
  show ?thesis
    by (simp add: ex_closure_def)
qed

theorem request_never_delivered_counterexample:
  "length (filter is_Invoke (trace ex_after_three_passes)) = 3
   \<and> delivered 7 (trace ex_after_three_passes) = 0
   \<and> released 7 (trace ex_after_three_passes) = 0
   \<and> requested 7 (trace ex_after_three_passes) = 1
   \<and> scheduled ex_after_three_passes = [ex_closure]
   \<and> scheduled ex_after_three_passes = scheduled ex_after_first_pass
   \<and> ecs ex_after_three_passes = ecs ex_after_first_pass
   \<and> state ex_after_three_passes = state ex_after_first_pass"
  by (simp add: ex_after_three_passes_def ex_after_first_pass_def all_defs ex_closure_def
      ex_eval_closure_def)

subsection \<open>Where the arguments are converted\<close>

lemma conversion_counts_append [simp]:
  "converted p (xs @ ys) = converted p xs + converted p ys"
  "posted_on p (xs @ ys) = posted_on p xs + posted_on p ys"
  "released_unconverted p (xs @ ys) = released_unconverted p xs + released_unconverted p ys"
  "held_unconverted p (cs @ ds) = held_unconverted p cs + held_unconverted p ds"
  by (simp_all add: converted_def posted_on_def released_unconverted_def held_unconverted_def)

lemma conversion_counts_Nil [simp]:
  "converted p [] = 0" "posted_on p [] = 0" "released_unconverted p [] = 0"
  "held_unconverted p [] = 0"
  by (simp_all add: converted_def posted_on_def released_unconverted_def held_unconverted_def)

lemma conversion_counts_Cons [simp]:
  "converted p (ev # evs) = (if converts p ev then 1 else 0) + converted p evs"
  "posted_on p (ev # evs) = (if posts_on p ev then 1 else 0) + posted_on p evs"
  "released_unconverted p (ev # evs)
     = (if releases_unconverted p ev then 1 else 0) + released_unconverted p evs"
  "held_unconverted p (c # cs) = (if unconverted p c then 1 else 0) + held_unconverted p cs"
  by (simp_all add: converted_def posted_on_def released_unconverted_def held_unconverted_def)

lemma pass_events_conversion_counts:
  assumes "list_all is_pass_event evs"
  shows "converted p evs = 0 \<and> posted_on p evs = 0 \<and> released_unconverted p evs = 0"
  using assms by (induction evs) (auto elim: is_pass_event.elims)

lemma held_unconverted_remove1:
  assumes "c \<in> set cs"
  shows "held_unconverted p (remove1 c cs) + (if unconverted p c then 1 else 0)
           = held_unconverted p cs"
  using assms by (induction cs) auto

lemma OnPolicyReadyToEvaluate_conversions:
  assumes ran: "OnPolicyReadyToEvaluate co um ec k m args w = w'"
  shows "converted p (trace w') = converted p (trace w)
         \<and> posted_on p (trace w') = posted_on p (trace w)
         \<and> released_unconverted p (trace w') = released_unconverted p (trace w)
         \<and> held_unconverted p (scheduled w') = held_unconverted p (scheduled w)
         \<and> next_ec w' = next_ec w"
proof (cases rule: OnPolicyReadyToEvaluate_cases
    [where co = co and um = um and ec = ec and m = m and args = args and w = w and k = k])
  case (delivers st r w1)
  from EvaluatePolicy_frame [OF delivers(1)] obtain evs where
    fr: "scheduled w1 = scheduled w" "trace w1 = trace w @ evs" "list_all is_pass_event evs"
        "next_ec w1 = next_ec w"
    by blast
  from pass_events_conversion_counts [OF fr(3), of p] ran delivers(3) fr(1,2,4) show ?thesis
    by auto
next
  case (reschedules r w1 e')
  from EvaluatePolicy_frame [OF reschedules(1)] obtain evs where
    fr: "scheduled w1 = scheduled w" "trace w1 = trace w @ evs" "list_all is_pass_event evs"
        "next_ec w1 = next_ec w"
    by blast
  from pass_events_conversion_counts [OF fr(3), of p] ran reschedules(3) fr(1,2,4) show ?thesis
    by auto
next
  case (unschedulable r w1 e')
  from EvaluatePolicy_frame [OF unschedulable(1)] obtain evs where
    fr: "scheduled w1 = scheduled w" "trace w1 = trace w @ evs" "list_all is_pass_event evs"
        "next_ec w1 = next_ec w"
    by blast
  from pass_events_conversion_counts [OF fr(3), of p] ran unschedulable(3) fr(1,2,4)
  show ?thesis
    by auto
qed

lemma Closure_Run_conversions:
  assumes ran: "Closure_Run co um convert c w = w'"
  shows "converted p (trace w') + held_unconverted p (scheduled w')
           = converted p (trace w) + held_unconverted p (scheduled w)
             + (if unconverted p c then 1 else 0)
         \<and> posted_on p (trace w') = posted_on p (trace w)
         \<and> released_unconverted p (trace w') = released_unconverted p (trace w)
         \<and> next_ec w' = next_ec w"
proof (cases c)
  case (Bind_OnPolicyReadyToEvaluate ec k m a)
  from OnPolicyReadyToEvaluate_conversions [where p = p, OF ran [unfolded
        Bind_OnPolicyReadyToEvaluate Closure_Run_reeval]]
  show ?thesis by (simp add: Bind_OnPolicyReadyToEvaluate)
next
  case (Bind_eval_callback ec k m b)
  from OnPolicyReadyToEvaluate_conversions [where p = p, OF ran [unfolded
        Bind_eval_callback Closure_Run_eval]]
  show ?thesis by (simp add: Bind_eval_callback)
qed

lemma PolicyRequest_conversions:
  "\<exists>evs. trace (PolicyRequest_world (PolicyRequest co um convert m result args w))
            = trace w @ evs
         \<and> converted p evs = 0 \<and> posted_on p evs = 0 \<and> released_unconverted p evs = 0
         \<and> scheduled (PolicyRequest_world (PolicyRequest co um convert m result args w))
            = scheduled w
         \<and> next_ec (PolicyRequest_world (PolicyRequest co um convert m result args w))
            = Suc (next_ec w)"
proof -
  let ?w1 = "snd (new_EvaluationContext co (clock um) (evaluation_timeout um) None w)"
  obtain ret r w2 where
    pass: "EvaluatePolicy co um (next_ec w) m result (convert args) ?w1 = (ret, r, w2)"
    by (metis prod_cases3)
  from EvaluatePolicy_frame [OF pass] obtain evs where
    fr: "scheduled w2 = scheduled ?w1" "trace w2 = trace ?w1 @ evs" "list_all is_pass_event evs"
        "next_ec w2 = next_ec ?w1"
    by blast
  from pass_events_conversion_counts [OF fr(3), of p] fr(1,2,4) show ?thesis
    unfolding PolicyRequest_eq [where convert = convert and args = args, OF pass]
    by (auto simp add: PolicyRequest_world_def new_EvaluationContext_eq)
qed

lemma conversions_accountedD:
  assumes "conversions_accounted w"
  shows "converted p (trace w) + held_unconverted p (scheduled w)
           + released_unconverted p (trace w) = posted_on p (trace w)
         \<and> posted_on p (trace w) \<le> (if p < next_ec w then 1 else 0)"
  using assms by (simp add: conversions_accounted_def)

lemma loop_step_conversions_accounted:
  assumes inv: "conversions_accounted w"
  shows "conversions_accounted (last_world (loop_step co um convert act w))"
proof (cases act)
  case (Fire c)
  show ?thesis
  proof (cases "c \<in> set (scheduled w)")
    case True
    let ?w0 = "w\<lparr>scheduled := remove1 c (scheduled w)\<rparr>"
    have "\<And>p. converted p (trace (Closure_Run co um convert c ?w0))
             + held_unconverted p (scheduled (Closure_Run co um convert c ?w0))
             + released_unconverted p (trace (Closure_Run co um convert c ?w0))
             = posted_on p (trace (Closure_Run co um convert c ?w0))
           \<and> posted_on p (trace (Closure_Run co um convert c ?w0))
             \<le> (if p < next_ec (Closure_Run co um convert c ?w0) then 1 else 0)"
    proof -
      fix p
      from Closure_Run_conversions [where co = co and um = um and convert = convert and c = c
          and w = ?w0 and p = p, OF refl]
        held_unconverted_remove1 [OF True, of p] conversions_accountedD [OF inv, of p]
      show "converted p (trace (Closure_Run co um convert c ?w0))
             + held_unconverted p (scheduled (Closure_Run co um convert c ?w0))
             + released_unconverted p (trace (Closure_Run co um convert c ?w0))
             = posted_on p (trace (Closure_Run co um convert c ?w0))
           \<and> posted_on p (trace (Closure_Run co um convert c ?w0))
             \<le> (if p < next_ec (Closure_Run co um convert c ?w0) then 1 else 0)"
        by (auto split: if_splits)
    qed
    then show ?thesis
      by (simp add: Fire loop_step_def last_world_def True conversions_accounted_def)
  next
    case False
    with inv show ?thesis by (simp add: Fire loop_step_def last_world_def)
  qed
next
  case (Release c)
  show ?thesis
  proof (cases "c \<in> set (scheduled w)")
    case True
    let ?w' = "emit (Ev_released c) (w\<lparr>scheduled := remove1 c (scheduled w)\<rparr>)"
    have "\<And>p. converted p (trace ?w') + held_unconverted p (scheduled ?w')
             + released_unconverted p (trace ?w') = posted_on p (trace ?w')
           \<and> posted_on p (trace ?w') \<le> (if p < next_ec ?w' then 1 else 0)"
    proof -
      fix p
      from held_unconverted_remove1 [OF True, of p] conversions_accountedD [OF inv, of p]
      show "converted p (trace ?w') + held_unconverted p (scheduled ?w')
             + released_unconverted p (trace ?w') = posted_on p (trace ?w')
           \<and> posted_on p (trace ?w') \<le> (if p < next_ec ?w' then 1 else 0)"
        by (auto simp add: emit_def split: if_splits)
    qed
    then show ?thesis
      by (simp add: Release loop_step_def last_world_def True conversions_accounted_def)
  next
    case False
    with inv show ?thesis by (simp add: Release loop_step_def last_world_def)
  qed
next
  case (Environment es s)
  with inv show ?thesis by (simp add: loop_step_def last_world_def conversions_accounted_def)
next
  case (Async k m args)
  have "\<And>p. converted p (trace (AsyncPolicyRequest co um k m args w))
            + held_unconverted p (scheduled (AsyncPolicyRequest co um k m args w))
            + released_unconverted p (trace (AsyncPolicyRequest co um k m args w))
            = posted_on p (trace (AsyncPolicyRequest co um k m args w))
          \<and> posted_on p (trace (AsyncPolicyRequest co um k m args w))
            \<le> (if p < next_ec (AsyncPolicyRequest co um k m args w) then 1 else 0)"
  proof -
    fix p
    from conversions_accountedD [OF inv, of p]
    show "converted p (trace (AsyncPolicyRequest co um k m args w))
            + held_unconverted p (scheduled (AsyncPolicyRequest co um k m args w))
            + released_unconverted p (trace (AsyncPolicyRequest co um k m args w))
            = posted_on p (trace (AsyncPolicyRequest co um k m args w))
          \<and> posted_on p (trace (AsyncPolicyRequest co um k m args w))
            \<le> (if p < next_ec (AsyncPolicyRequest co um k m args w) then 1 else 0)"
      unfolding AsyncPolicyRequest_eq
      by (auto simp add: less_Suc_eq split: if_splits)
  qed
  then show ?thesis
    by (simp add: Async loop_step_def last_world_def conversions_accounted_def)
next
  case (Sync m result args)
  have eq: "last_world (loop_step co um convert act w)
          = PolicyRequest_world (PolicyRequest co um convert m result args w)"
    by (simp add: Sync loop_step_def last_world_def PolicyRequest_world_def
        split: sum.splits prod.splits)
  have "\<And>p. converted p (trace (PolicyRequest_world (PolicyRequest co um convert m result args w)))
            + held_unconverted p
                (scheduled (PolicyRequest_world (PolicyRequest co um convert m result args w)))
            + released_unconverted p
                (trace (PolicyRequest_world (PolicyRequest co um convert m result args w)))
            = posted_on p (trace (PolicyRequest_world (PolicyRequest co um convert m result args w)))
          \<and> posted_on p (trace (PolicyRequest_world (PolicyRequest co um convert m result args w)))
            \<le> (if p < next_ec (PolicyRequest_world (PolicyRequest co um convert m result args w))
                then 1 else 0)"
  proof -
    fix p
    from PolicyRequest_conversions [where co = co and um = um and convert = convert
        and m = m and result = result and args = args and w = w and p = p]
      conversions_accountedD [OF inv, of p]
    show "converted p (trace (PolicyRequest_world (PolicyRequest co um convert m result args w)))
            + held_unconverted p
                (scheduled (PolicyRequest_world (PolicyRequest co um convert m result args w)))
            + released_unconverted p
                (trace (PolicyRequest_world (PolicyRequest co um convert m result args w)))
            = posted_on p (trace (PolicyRequest_world (PolicyRequest co um convert m result args w)))
          \<and> posted_on p (trace (PolicyRequest_world (PolicyRequest co um convert m result args w)))
            \<le> (if p < next_ec (PolicyRequest_world (PolicyRequest co um convert m result args w))
                then 1 else 0)"
      by (auto simp add: less_Suc_eq split: if_splits)
  qed
  then show ?thesis
    by (simp add: eq conversions_accounted_def)
qed

lemma run_loop_conversions_accounted:
  assumes "conversions_accounted w"
  shows "conversions_accounted (last_world (run_loop co um convert acts w))"
  using assms
proof (induction acts arbitrary: w)
  case Nil
  then show ?case by (simp add: last_world_def)
next
  case (Cons act acts)
  show ?case
  proof (cases "loop_step co um convert act w")
    case (Inl x)
    with loop_step_conversions_accounted [OF Cons.prems, where co = co and um = um
        and convert = convert and act = act]
    show ?thesis by simp
  next
    case (Inr w')
    with loop_step_conversions_accounted [OF Cons.prems, where co = co and um = um
        and convert = convert and act = act]
    have "conversions_accounted w'" by (simp add: last_world_def)
    from Cons.IH [OF this] Inr show ?thesis by simp
  qed
qed

lemma initial_world_conversions_accounted: "conversions_accounted (initial_world es s)"
  by (simp add: conversions_accounted_def initial_world_def)

lemma captured_closure_mono:
  assumes "captured_closure convert acts evs c"
      and "set acts \<subseteq> set acts'" and "set evs \<subseteq> set evs'"
  shows "captured_closure convert acts' evs' c"
  using assms by (cases c) auto

lemma captured_mono:
  assumes "captured convert um acts w" and "set acts \<subseteq> set acts'"
  shows "captured convert um acts' w"
proof -
  have "\<forall>c \<in> set (scheduled w). captured_closure convert acts' (trace w) c"
    using assms captured_closure_mono [where evs = "trace w" and evs' = "trace w"]
    unfolding captured_def by blast
  moreover have "\<forall>c. Ev_RunFromMainLoop c \<in> set (trace w) \<longrightarrow>
           (\<exists>k m b. Async k m b \<in> set acts' \<and> c = Bind_eval_callback (bound_ec c) k m b)
           \<and> Ev_new_EvaluationContext (bound_ec c) (clock um) (evaluation_timeout um)
                (Some (expiration_timeout um)) \<in> set (trace w)"
    using assms unfolding captured_def by blast
  ultimately show ?thesis unfolding captured_def by blast
qed

lemma captured_extend:
  assumes inv: "captured convert um acts w"
      and tr: "trace w' = trace w @ evs"
      and no: "\<forall>c'. Ev_RunFromMainLoop c' \<notin> set evs"
      and sch: "\<forall>c \<in> set (scheduled w').
                  c \<in> set (scheduled w) \<or> captured_closure convert acts (trace w') c"
  shows "captured convert um acts w'"
proof -
  have "\<forall>c \<in> set (scheduled w'). captured_closure convert acts (trace w') c"
  proof
    fix c assume c: "c \<in> set (scheduled w')"
    show "captured_closure convert acts (trace w') c"
    proof (cases "c \<in> set (scheduled w)")
      case True
      with inv have "captured_closure convert acts (trace w) c"
        unfolding captured_def by blast
      then show ?thesis
        by (rule captured_closure_mono) (auto simp add: tr)
    next
      case False
      with sch c show ?thesis by blast
    qed
  qed
  moreover have "\<forall>c. Ev_RunFromMainLoop c \<in> set (trace w') \<longrightarrow>
           (\<exists>k m b. Async k m b \<in> set acts \<and> c = Bind_eval_callback (bound_ec c) k m b)
           \<and> Ev_new_EvaluationContext (bound_ec c) (clock um) (evaluation_timeout um)
                (Some (expiration_timeout um)) \<in> set (trace w')"
    using inv no unfolding captured_def tr by auto
  ultimately show ?thesis unfolding captured_def by blast
qed

lemma Closure_Run_captured:
  assumes inv: "captured convert um acts w"
      and held: "c \<in> set (scheduled w)"
  shows "captured convert um acts
           (Closure_Run co um convert c (w\<lparr>scheduled := remove1 c (scheduled w)\<rparr>))"
proof (cases c)
  case (Bind_OnPolicyReadyToEvaluate ec k m a)
  let ?w0 = "w\<lparr>scheduled := remove1 c (scheduled w)\<rparr>"
  let ?w' = "OnPolicyReadyToEvaluate co um ec k m a ?w0"
  from OnPolicyReadyToEvaluate_frame [OF refl, where co = co and um = um and ec = ec and k = k
      and m = m and args = a and w = ?w0]
  obtain evs where
    fr: "trace ?w' = trace w @ evs" "\<forall>c'. Ev_RunFromMainLoop c' \<notin> set evs"
        "scheduled ?w' = remove1 c (scheduled w) \<or> scheduled ?w' = remove1 c (scheduled w) @ [c]"
    by (auto simp add: Bind_OnPolicyReadyToEvaluate)
  have "\<forall>c' \<in> set (scheduled ?w').
          c' \<in> set (scheduled w) \<or> captured_closure convert acts (trace ?w') c'"
    using fr(3) held set_remove1_subset [of c "scheduled w"] by auto
  from captured_extend [OF inv fr(1) fr(2) this] show ?thesis
    by (simp add: Bind_OnPolicyReadyToEvaluate Closure_Run_reeval)
next
  case (Bind_eval_callback ec k m b)
  define w' where
    "w' = OnPolicyReadyToEvaluate co um ec k m (convert b)
            (w\<lparr>scheduled := remove1 c (scheduled w),
               trace := trace w @ [Ev_convert ec b (convert b)]\<rparr>)"
  from OnPolicyReadyToEvaluate_frame [OF w'_def [symmetric]]
  obtain evs where
    fr: "trace w' = trace w @ Ev_convert ec b (convert b) # evs"
        "\<forall>c'. Ev_RunFromMainLoop c' \<notin> set evs"
        "scheduled w' = remove1 c (scheduled w)
         \<or> scheduled w' = remove1 c (scheduled w)
                            @ [Bind_OnPolicyReadyToEvaluate ec k m (convert b)]"
    by auto
  from inv held have "captured_closure convert acts (trace w) c"
    unfolding captured_def by blast
  then have "Async k m b \<in> set acts"
    and "Ev_RunFromMainLoop (Bind_eval_callback ec k m b) \<in> set (trace w')"
    and "Ev_convert ec b (convert b) \<in> set (trace w')"
    by (simp_all add: Bind_eval_callback fr(1))
  then have new: "captured_closure convert acts (trace w')
               (Bind_OnPolicyReadyToEvaluate ec k m (convert b))"
    by auto
  have sch: "\<forall>c' \<in> set (scheduled w').
          c' \<in> set (scheduled w) \<or> captured_closure convert acts (trace w') c'"
    using fr(3) new set_remove1_subset [of c "scheduled w"] by auto
  have no: "\<forall>c'. Ev_RunFromMainLoop c' \<notin> set (Ev_convert ec b (convert b) # evs)"
    using fr(2) by simp
  from captured_extend [OF inv fr(1) no sch] show ?thesis
    by (simp add: Bind_eval_callback Closure_Run_eval w'_def)
qed

lemma PolicyRequest_posts_nothing:
  "\<exists>evs. trace (PolicyRequest_world (PolicyRequest co um convert m result args w))
            = trace w @ evs
         \<and> (\<forall>c. Ev_RunFromMainLoop c \<notin> set evs)
         \<and> scheduled (PolicyRequest_world (PolicyRequest co um convert m result args w))
            = scheduled w"
proof -
  let ?w1 = "snd (new_EvaluationContext co (clock um) (evaluation_timeout um) None w)"
  obtain ret r w2 where
    pass: "EvaluatePolicy co um (next_ec w) m result (convert args) ?w1 = (ret, r, w2)"
    by (metis prod_cases3)
  from EvaluatePolicy_frame [OF pass] obtain evs where
    fr: "scheduled w2 = scheduled ?w1" "trace w2 = trace ?w1 @ evs" "list_all is_pass_event evs"
    by blast
  from pass_events_no_RunFromMainLoop [OF fr(3)] fr(1,2) show ?thesis
    unfolding PolicyRequest_eq [where convert = convert and args = args, OF pass]
    by (auto simp add: PolicyRequest_world_def new_EvaluationContext_eq)
qed

lemma loop_step_captured:
  assumes inv: "captured convert um acts w"
  shows "captured convert um (acts @ [act]) (last_world (loop_step co um convert act w))"
proof -
  have inv': "captured convert um (acts @ [act]) w"
    by (rule captured_mono [OF inv]) auto
  show ?thesis
  proof (cases act)
    case (Fire c)
    show ?thesis
    proof (cases "c \<in> set (scheduled w)")
      case True
      from Closure_Run_captured [OF inv' True, where co = co] show ?thesis
        by (simp add: Fire loop_step_def last_world_def True)
    next
      case False
      with inv' show ?thesis by (simp add: Fire loop_step_def last_world_def)
    qed
  next
    case (Release c)
    show ?thesis
    proof (cases "c \<in> set (scheduled w)")
      case True
      let ?w' = "emit (Ev_released c) (w\<lparr>scheduled := remove1 c (scheduled w)\<rparr>)"
      have "trace ?w' = trace w @ [Ev_released c]"
        "\<forall>c'. Ev_RunFromMainLoop c' \<notin> set [Ev_released c]"
        "\<forall>c' \<in> set (scheduled ?w').
           c' \<in> set (scheduled w) \<or> captured_closure convert (acts @ [act]) (trace ?w') c'"
        using set_remove1_subset [of c "scheduled w"] by (auto simp add: emit_def)
      from captured_extend [OF inv' this] show ?thesis
        by (simp add: Release loop_step_def last_world_def True)
    next
      case False
      with inv' show ?thesis by (simp add: Release loop_step_def last_world_def)
    qed
  next
    case (Environment es s)
    have "captured convert um (acts @ [act]) (w\<lparr>ecs := es, state := s\<rparr>)"
      using inv' by (simp add: captured_def)
    then show ?thesis by (simp add: Environment loop_step_def last_world_def)
  next
    case (Async k m args)
    let ?c = "Bind_eval_callback (next_ec w) k m args"
    let ?w' = "AsyncPolicyRequest co um k m args w"
    have held: "\<forall>c \<in> set (scheduled ?w'). captured_closure convert (acts @ [act]) (trace ?w') c"
    proof
      fix c assume "c \<in> set (scheduled ?w')"
      then consider "c \<in> set (scheduled w)" | "c = ?c"
        by (auto simp add: AsyncPolicyRequest_eq)
      then show "captured_closure convert (acts @ [act]) (trace ?w') c"
      proof cases
        case 1
        with inv' have "captured_closure convert (acts @ [act]) (trace w) c"
          unfolding captured_def by blast
        then show ?thesis
          by (rule captured_closure_mono) (auto simp add: AsyncPolicyRequest_eq)
      next
        case 2
        then show ?thesis by (simp add: AsyncPolicyRequest_eq Async)
      qed
    qed
    have posted: "\<forall>c. Ev_RunFromMainLoop c \<in> set (trace ?w') \<longrightarrow>
           (\<exists>k m b. Async k m b \<in> set (acts @ [act])
                    \<and> c = Bind_eval_callback (bound_ec c) k m b)
           \<and> Ev_new_EvaluationContext (bound_ec c) (clock um) (evaluation_timeout um)
                (Some (expiration_timeout um)) \<in> set (trace ?w')"
      using inv' unfolding captured_def AsyncPolicyRequest_eq
      by (auto simp add: Async)
    from held posted have "captured convert um (acts @ [act]) ?w'"
      unfolding captured_def by blast
    then show ?thesis by (simp add: Async loop_step_def last_world_def)
  next
    case (Sync m result args)
    have eq: "last_world (loop_step co um convert act w)
            = PolicyRequest_world (PolicyRequest co um convert m result args w)"
      by (simp add: Sync loop_step_def last_world_def PolicyRequest_world_def
          split: sum.splits prod.splits)
    from PolicyRequest_posts_nothing [where co = co and um = um and convert = convert
        and m = m and result = result and args = args and w = w]
    obtain evs where
      fr: "trace (PolicyRequest_world (PolicyRequest co um convert m result args w))
             = trace w @ evs"
          "\<forall>c. Ev_RunFromMainLoop c \<notin> set evs"
          "scheduled (PolicyRequest_world (PolicyRequest co um convert m result args w))
             = scheduled w"
      by blast
    have "\<forall>c' \<in> set (scheduled (PolicyRequest_world
                                    (PolicyRequest co um convert m result args w))).
            c' \<in> set (scheduled w)
            \<or> captured_closure convert (acts @ [act])
                 (trace (PolicyRequest_world (PolicyRequest co um convert m result args w))) c'"
      by (simp add: fr(3))
    from captured_extend [OF inv' fr(1) fr(2) this] show ?thesis
      by (simp add: eq)
  qed
qed

lemma run_loop_captured:
  assumes "captured convert um done w"
  shows "captured convert um (done @ acts) (last_world (run_loop co um convert acts w))"
  using assms
proof (induction acts arbitrary: w "done")
  case Nil
  then show ?case by (simp add: last_world_def)
next
  case (Cons act acts)
  from loop_step_captured [OF Cons.prems, where co = co and act = act]
  have step: "captured convert um (done @ [act]) (last_world (loop_step co um convert act w))" .
  show ?case
  proof (cases "loop_step co um convert act w")
    case (Inl x)
    have "captured convert um (done @ act # acts) (last_world (loop_step co um convert act w))"
      by (rule captured_mono [OF step]) auto
    with Inl show ?thesis by simp
  next
    case (Inr w')
    with step have "captured convert um (done @ [act]) w'" by (simp add: last_world_def)
    from Cons.IH [OF this] Inr show ?thesis by simp
  qed
qed

lemma initial_world_captured: "captured convert um [] (initial_world es s)"
  by (simp add: captured_def initial_world_def)

lemma converted_ge_1:
  "Ev_convert p b a \<in> set evs \<Longrightarrow> 1 \<le> converted p evs"
  by (induction evs) auto

lemma held_unconverted_ge_1:
  "c \<in> set cs \<Longrightarrow> unconverted p c \<Longrightarrow> 1 \<le> held_unconverted p cs"
  by (induction cs) auto

text \<open>
  C8, as the code has it. \<open>AsyncPolicyRequest\<close> converts nothing: the closure it posts
  binds the caller's values. They are converted when the event loop first runs that
  closure, once per request: a request whose first closure is still held has no
  conversion behind it, its first pass starts with the conversion and has no other, and a
  request at a reevaluation pass has exactly one conversion behind it, to which the pass
  adds none. A closure released before it runs is never converted. Every reevaluation pass
  runs a closure that binds the converted values of a request of the script, invokes the
  closure's policy method on the closure's context with those values, and, when it
  reschedules, registers that same closure again. The counterexample is the claim as
  stated: nothing is converted at the entry of the request, and a request released before
  its first pass ends without a conversion.
\<close>

theorem arguments_converted_at_first_run_and_reused:
  fixes co :: "('e, 'r) collaborators"
    and um :: "('e, 's, 'm, 'r, 'a) UpdateManager"
    and convert :: "'b \<Rightarrow> 'a"
    and w :: "('e, 's, 'm, 'r, 'a, 'b, 'k) world"
  assumes run: "run_loop co um convert acts (initial_world es s) = Inr w"
      and held: "c \<in> set (scheduled w)"
      and fired: "loop_step co um convert (Fire c) w = Inr w'"
  shows "(case c of
            Bind_eval_callback ec k m b \<Rightarrow>
              Async k m b \<in> set acts
              \<and> converted ec (trace w) = 0
              \<and> (\<exists>rest. events_since w w' = Ev_convert ec b (convert b) # rest
                       \<and> filter is_convert rest = [])
              \<and> (filter is_Invoke (events_since w w')
                    = [Ev_Invoke Primary m ec [] (convert b)]
                 \<or> filter is_Invoke (events_since w w')
                    = [Ev_Invoke Primary m ec [] (convert b),
                       Ev_Invoke Default m ec [] (convert b)])
              \<and> (scheduled w' = remove1 c (scheduled w)
                 \<or> scheduled w' = remove1 c (scheduled w)
                                    @ [Bind_OnPolicyReadyToEvaluate ec k m (convert b)])
          | Bind_OnPolicyReadyToEvaluate ec k m a \<Rightarrow>
              (\<exists>b. Async k m b \<in> set acts \<and> a = convert b
                   \<and> Ev_convert ec b a \<in> set (trace w))
              \<and> converted ec (trace w) = 1
              \<and> filter is_convert (events_since w w') = []
              \<and> (filter is_Invoke (events_since w w') = [Ev_Invoke Primary m ec [] a]
                 \<or> filter is_Invoke (events_since w w')
                    = [Ev_Invoke Primary m ec [] a, Ev_Invoke Default m ec [] a])
              \<and> (scheduled w' = remove1 c (scheduled w)
                 \<or> scheduled w' = remove1 c (scheduled w) @ [c]))
         \<and> (\<forall>p. converted p (trace w) + held_unconverted p (scheduled w)
                  + released_unconverted p (trace w) = posted_on p (trace w)
                \<and> posted_on p (trace w) \<le> 1)"
proof -
  from run_loop_captured
         [OF initial_world_captured [where convert = convert and um = um and es = es and s = s],
          where co = co and acts = acts]
  have cap: "captured convert um acts w"
    by (simp add: run last_world_def)
  from run_loop_conversions_accounted
         [OF initial_world_conversions_accounted [where es = es and s = s],
          where co = co and um = um and convert = convert and acts = acts]
  have acc: "conversions_accounted w"
    by (simp add: run last_world_def)
  have law: "\<forall>p. converted p (trace w) + held_unconverted p (scheduled w)
                  + released_unconverted p (trace w) = posted_on p (trace w)
                \<and> posted_on p (trace w) \<le> 1"
  proof
    fix p
    from conversions_accountedD [OF acc, of p]
    show "converted p (trace w) + held_unconverted p (scheduled w)
                  + released_unconverted p (trace w) = posted_on p (trace w)
                \<and> posted_on p (trace w) \<le> 1"
      by (auto split: if_splits)
  qed
  from cap held have cc: "captured_closure convert acts (trace w) c"
    unfolding captured_def by blast
  define w0 where "w0 = w\<lparr>scheduled := remove1 c (scheduled w)\<rparr>"
  have w': "w' = Closure_Run co um convert c w0"
    using fired held by (simp add: loop_step_def w0_def)
  have w0: "trace w0 = trace w" "scheduled w0 = remove1 c (scheduled w)"
    by (simp_all add: w0_def)
  have pass: "case c of
            Bind_eval_callback ec k m b \<Rightarrow>
              Async k m b \<in> set acts
              \<and> converted ec (trace w) = 0
              \<and> (\<exists>rest. events_since w w' = Ev_convert ec b (convert b) # rest
                       \<and> filter is_convert rest = [])
              \<and> (filter is_Invoke (events_since w w')
                    = [Ev_Invoke Primary m ec [] (convert b)]
                 \<or> filter is_Invoke (events_since w w')
                    = [Ev_Invoke Primary m ec [] (convert b),
                       Ev_Invoke Default m ec [] (convert b)])
              \<and> (scheduled w' = remove1 c (scheduled w)
                 \<or> scheduled w' = remove1 c (scheduled w)
                                    @ [Bind_OnPolicyReadyToEvaluate ec k m (convert b)])
          | Bind_OnPolicyReadyToEvaluate ec k m a \<Rightarrow>
              (\<exists>b. Async k m b \<in> set acts \<and> a = convert b
                   \<and> Ev_convert ec b a \<in> set (trace w))
              \<and> converted ec (trace w) = 1
              \<and> filter is_convert (events_since w w') = []
              \<and> (filter is_Invoke (events_since w w') = [Ev_Invoke Primary m ec [] a]
                 \<or> filter is_Invoke (events_since w w')
                    = [Ev_Invoke Primary m ec [] a, Ev_Invoke Default m ec [] a])
              \<and> (scheduled w' = remove1 c (scheduled w)
                 \<or> scheduled w' = remove1 c (scheduled w) @ [c])"
  proof (cases c)
    case (Bind_OnPolicyReadyToEvaluate ec k m a)
    from cc obtain b where
      b: "Async k m b \<in> set acts" "a = convert b" "Ev_convert ec b a \<in> set (trace w)"
      by (auto simp add: Bind_OnPolicyReadyToEvaluate)
    from converted_ge_1 [OF b(3)] spec [OF law, of ec]
    have once: "converted ec (trace w) = 1"
      by linarith
    have ran: "OnPolicyReadyToEvaluate co um ec k m a w0 = w'"
      by (simp add: w' Bind_OnPolicyReadyToEvaluate Closure_Run_reeval)
    from OnPolicyReadyToEvaluate_frame [OF ran] w0 obtain evs where
      fr: "trace w' = trace w @ evs" "filter is_convert evs = []"
          "filter is_Invoke evs = [Ev_Invoke Primary m ec [] a]
           \<or> filter is_Invoke evs = [Ev_Invoke Primary m ec [] a, Ev_Invoke Default m ec [] a]"
          "scheduled w' = remove1 c (scheduled w)
           \<or> scheduled w' = remove1 c (scheduled w) @ [c]"
      by (auto simp add: Bind_OnPolicyReadyToEvaluate)
    have ev: "events_since w w' = evs"
      by (simp add: events_since_def fr(1))
    from b once fr(2,3,4) show ?thesis
      by (simp add: Bind_OnPolicyReadyToEvaluate ev) blast
  next
    case (Bind_eval_callback ec k m b)
    from cc have b: "Async k m b \<in> set acts"
      by (simp add: Bind_eval_callback)
    have "unconverted ec c" by (simp add: Bind_eval_callback)
    from held_unconverted_ge_1 [OF held this] spec [OF law, of ec]
    have none: "converted ec (trace w) = 0"
      by linarith
    define w1 where "w1 = w0\<lparr>trace := trace w0 @ [Ev_convert ec b (convert b)]\<rparr>"
    have ran: "OnPolicyReadyToEvaluate co um ec k m (convert b) w1 = w'"
      by (simp add: w' Bind_eval_callback Closure_Run_eval w1_def)
    have w1: "trace w1 = trace w @ [Ev_convert ec b (convert b)]"
      "scheduled w1 = remove1 c (scheduled w)"
      by (simp_all add: w1_def w0)
    from OnPolicyReadyToEvaluate_frame [OF ran] w1 obtain evs where
      fr: "trace w' = trace w @ Ev_convert ec b (convert b) # evs" "filter is_convert evs = []"
          "filter is_Invoke evs = [Ev_Invoke Primary m ec [] (convert b)]
           \<or> filter is_Invoke evs = [Ev_Invoke Primary m ec [] (convert b),
                                     Ev_Invoke Default m ec [] (convert b)]"
          "scheduled w' = remove1 c (scheduled w)
           \<or> scheduled w' = remove1 c (scheduled w)
                              @ [Bind_OnPolicyReadyToEvaluate ec k m (convert b)]"
      by auto
    have ev: "events_since w w' = Ev_convert ec b (convert b) # evs"
      by (simp add: events_since_def fr(1))
    from b none fr(2,3,4) show ?thesis
      by (simp add: Bind_eval_callback ev)
  qed
  from pass law show ?thesis by (rule conjI)
qed


theorem arguments_converted_at_first_run_and_reused_witness:
  "ex_closure \<in> set (scheduled ex_after_first_pass)
   \<and> Ev_convert 0 True (of_bool True) \<in> set (trace ex_after_first_pass)
   \<and> converted 0 (trace ex_after_first_pass) = 1
   \<and> filter is_convert
        (events_since ex_after_first_pass
           (last_world (loop_step ex_co ex_um of_bool (Fire ex_closure) ex_after_first_pass)))
      = []
   \<and> filter is_Invoke
        (events_since ex_after_first_pass
           (last_world (loop_step ex_co ex_um of_bool (Fire ex_closure) ex_after_first_pass)))
      = [Ev_Invoke Primary UpdateCheckAllowed 0 [] (of_bool True)]
   \<and> scheduled (last_world (loop_step ex_co ex_um of_bool (Fire ex_closure)
                               ex_after_first_pass))
      = [ex_closure]"
proof -
  let ?w' = "last_world (loop_step ex_co ex_um of_bool (Fire ex_closure) ex_after_first_pass)"
  have run: "run_loop ex_co ex_um of_bool [Async 7 UpdateCheckAllowed True, Fire ex_eval_closure]
               (initial_world (\<lambda>a. (0, False)) 0) = Inr ex_after_first_pass"
    by (simp add: ex_after_first_pass_def all_defs ex_closure_def ex_eval_closure_def)
  have held: "ex_closure \<in> set (scheduled ex_after_first_pass)"
    by (simp add: ex_after_first_pass_def all_defs ex_closure_def ex_eval_closure_def)
  have fired: "loop_step ex_co ex_um of_bool (Fire ex_closure) ex_after_first_pass = Inr ?w'"
    using held by (simp add: loop_step_def last_world_def)
  have sch: "scheduled ?w' = [ex_closure]"
    by (simp add: ex_after_first_pass_def all_defs ex_closure_def ex_eval_closure_def)
  have inv: "filter is_Invoke (events_since ex_after_first_pass ?w')
               \<noteq> [Ev_Invoke Primary UpdateCheckAllowed 0 [] (of_bool True),
                   Ev_Invoke Default UpdateCheckAllowed 0 [] (of_bool True)]"
    by (simp add: ex_after_first_pass_def all_defs ex_closure_def ex_eval_closure_def
        events_since_def)
  have conv: "Ev_convert 0 True (of_bool True) \<in> set (trace ex_after_first_pass)"
    by (simp add: ex_after_first_pass_def all_defs ex_closure_def ex_eval_closure_def)
  from arguments_converted_at_first_run_and_reused [OF run held fired] inv
  have "converted 0 (trace ex_after_first_pass) = 1"
    and "filter is_convert (events_since ex_after_first_pass ?w') = []"
    and "filter is_Invoke (events_since ex_after_first_pass ?w')
           = [Ev_Invoke Primary UpdateCheckAllowed 0 [] (of_bool True)]"
    unfolding ex_closure_def by auto
  with held sch conv show ?thesis by blast
qed

theorem no_conversion_at_entry_counterexample:
  "filter is_convert
     (events_since (ex_world False 0)
        (AsyncPolicyRequest ex_co ex_um 7 UpdateCheckAllowed True (ex_world False 0))) = []
   \<and> scheduled (AsyncPolicyRequest ex_co ex_um 7 UpdateCheckAllowed True (ex_world False 0))
      = [Bind_eval_callback 0 7 UpdateCheckAllowed True]
   \<and> filter is_convert (trace ex_after_first_pass) = [Ev_convert 0 True (of_bool True)]
   \<and> filter is_convert (trace ex_released_unrun) = []
   \<and> scheduled ex_released_unrun = []
   \<and> released 7 (trace ex_released_unrun) = 1"
  by (simp add: ex_after_first_pass_def ex_released_unrun_def all_defs ex_closure_def
      ex_eval_closure_def events_since_def)

end
